theory Spec2Isabelle
  imports Main "HOL-Library.AList"
begin

section \<open>The relay server: data model\<close>

text \<open>
  The program is one Node.js file. Its state is the module-level variables
  \<^verbatim>\<open>heartbeatInterval\<close> and \<^verbatim>\<open>clientConnections\<close>, the set \<^verbatim>\<open>wss.clients\<close> kept by
  the \<^verbatim>\<open>ws\<close> library, and the fields of each socket object. Handlers run one at a
  time (Node's event loop), so the program is a state machine over events; every call
  that leaves the program (logger, console, socket methods) is recorded in order.
\<close>

datatype readyState = CONNECTING | OPEN | CLOSING | CLOSED

text \<open>
  A socket object. \<open>wid\<close> is the object's identity (what \<^verbatim>\<open>client !== ws\<close> compares),
  \<open>isAlive\<close> is \<open>None\<close> while the property is undefined, \<open>clientIP\<close> is
  \<^verbatim>\<open>req.socket.remoteAddress\<close> (the closure variable of the listeners), and
  \<open>listeners\<close> tells whether the connection handler got as far as registering the
  'error', 'pong', 'message' and 'close' listeners (lines 152-192), which it does for
  an admitted connection only.
\<close>

record websocket =
  wid :: nat
  readyState :: readyState
  isAlive :: "bool option"
  clientIP :: string
  listeners :: bool

record request =
  remoteAddress :: string
  authorization :: "string option"

datatype level = Error | Warn | Info | Debug

datatype effect =
    Log level string
  | ConsoleLog string
  | WsClose nat int string
  | WsSend nat string
  | WsPing nat
  | WsTerminate nat

text \<open>
  \<open>clients\<close> is \<^verbatim>\<open>wss.clients\<close> (a JS Set: insertion order, no duplicates);
  \<open>clientConnections\<close> is the JS Map of the same name, as an association list in
  insertion order; \<open>heartbeatInterval\<close> is \<open>None\<close> for \<^verbatim>\<open>undefined\<close> and
  \<^verbatim>\<open>null\<close> (the code only tests its truthiness) and \<open>Some t\<close> for the timer handle
  \<open>t\<close>; \<open>timers\<close> are the interval timers of the process that are still scheduled.
\<close>

record server_state =
  clients :: "websocket list"
  clientConnections :: "(string \<times> int) list"
  heartbeatInterval :: "nat option"
  timers :: "nat list"
  next_timer :: nat
  next_wid :: nat
  io :: "effect list"

definition init_state :: server_state where
  "init_state = \<lparr>clients = [], clientConnections = [], heartbeatInterval = None,
     timers = [], next_timer = 0, next_wid = 0, io = []\<rparr>"

definition emit :: "effect list \<Rightarrow> server_state \<Rightarrow> server_state" where
  "emit es st = st\<lparr>io := io st @ es\<rparr>"

section \<open>Authentication and the per-IP counters\<close>

definition authenticateClient :: "request \<Rightarrow> bool" where
  "authenticateClient req = (authorization req = Some ''Bearer valid-token'')"

definition MAX_CONNECTIONS_PER_IP :: int where
  "MAX_CONNECTIONS_PER_IP = 10"

definition MAX_TOTAL_CONNECTIONS :: int where
  "MAX_TOTAL_CONNECTIONS = 1000"

text \<open>\<^verbatim>\<open>clientConnections.get(ip) || 0\<close>: a missing key reads as 0 (and a stored 0 as 0).\<close>

definition get_or_0 :: "(string \<times> int) list \<Rightarrow> string \<Rightarrow> int" where
  "get_or_0 m ip = (case map_of m ip of None \<Rightarrow> 0 | Some v \<Rightarrow> if v = 0 then 0 else v)"

definition trackClientConnection :: "string \<Rightarrow> (string \<times> int) list \<Rightarrow> (string \<times> int) list" where
  "trackClientConnection ip m = (let current = get_or_0 m ip in AList.update ip (current + 1) m)"

definition untrackClientConnection :: "string \<Rightarrow> (string \<times> int) list \<Rightarrow> (string \<times> int) list" where
  "untrackClientConnection ip m =
     (let current = get_or_0 m ip in
      if current \<le> 1 then AList.delete ip m
      else AList.update ip (current - 1) m)"

datatype call = Track string | Untrack string

fun apply_call :: "call \<Rightarrow> (string \<times> int) list \<Rightarrow> (string \<times> int) list" where
  "apply_call (Track ip) m = trackClientConnection ip m"
| "apply_call (Untrack ip) m = untrackClientConnection ip m"

fun apply_calls :: "call list \<Rightarrow> (string \<times> int) list \<Rightarrow> (string \<times> int) list" where
  "apply_calls [] m = m"
| "apply_calls (c # cs) m = apply_calls cs (apply_call c m)"

section \<open>Socket operations of the ws library\<close>

text \<open>
  The \<^verbatim>\<open>ws\<close> package is a dependency, not code of this repository. What the program
  relies on is modelled here: \<^verbatim>\<open>close\<close> on an open socket starts the closing handshake
  (readyState CLOSING), \<^verbatim>\<open>terminate\<close> destroys the transport (readyState CLOSING
  until the 'close' event), and in both cases the socket stays in \<^verbatim>\<open>wss.clients\<close>
  until its 'close' event.
\<close>

definition ws_close :: "websocket \<Rightarrow> websocket" where
  "ws_close c = (if readyState c = OPEN then c\<lparr>readyState := CLOSING\<rparr> else c)"

definition ws_terminate :: "websocket \<Rightarrow> websocket" where
  "ws_terminate c = (if readyState c = CLOSED then c else c\<lparr>readyState := CLOSING\<rparr>)"

fun find_ws :: "nat \<Rightarrow> websocket list \<Rightarrow> websocket option" where
  "find_ws w [] = None"
| "find_ws w (c # cs) = (if wid c = w then Some c else find_ws w cs)"

definition update_ws :: "nat \<Rightarrow> (websocket \<Rightarrow> websocket) \<Rightarrow> websocket list \<Rightarrow> websocket list" where
  "update_ws w f cs = map (\<lambda>c. if wid c = w then f c else c) cs"

definition remove_ws :: "nat \<Rightarrow> websocket list \<Rightarrow> websocket list" where
  "remove_ws w cs = filter (\<lambda>c. wid c \<noteq> w) cs"

section \<open>Broadcast\<close>

text \<open>\<^verbatim>\<open>wss.clients.forEach(callback)\<close>: the callback runs on each member in order.\<close>

fun forEach :: "('a \<Rightarrow> 's \<Rightarrow> 's) \<Rightarrow> 'a list \<Rightarrow> 's \<Rightarrow> 's" where
  "forEach f [] s = s"
| "forEach f (x # xs) s = forEach f xs (f x s)"

definition send :: "websocket \<Rightarrow> string \<Rightarrow> server_state \<Rightarrow> server_state" where
  "send client message st = emit [WsSend (wid client) message] st"

definition broadcast :: "websocket \<Rightarrow> string \<Rightarrow> bool \<Rightarrow> server_state \<Rightarrow> server_state" where
  "broadcast ws message includeSelf st =
     (if includeSelf then
        forEach (\<lambda>client s.
          if readyState client = OPEN then send client message s else s) (clients st) st
      else
        forEach (\<lambda>client s.
          if wid client \<noteq> wid ws \<and> readyState client = OPEN then send client message s else s)
          (clients st) st)"

section \<open>Heartbeat\<close>

text \<open>
  The interval callback of \<^verbatim>\<open>startHeartbeat\<close>: for each client, terminate it when
  \<^verbatim>\<open>isAlive === false\<close>, otherwise clear the flag and ping it if it is open. The
  callback touches only the client it visits, so the loop returns the visited clients
  and the calls made, in order.
\<close>

fun heartbeat_each :: "websocket list \<Rightarrow> websocket list \<times> effect list" where
  "heartbeat_each [] = ([], [])"
| "heartbeat_each (client # rest) =
     (let (rest', out) = heartbeat_each rest in
      if isAlive client = Some False then
        (ws_terminate client # rest',
         ConsoleLog ''Terminating unresponsive client'' # WsTerminate (wid client) # out)
      else
        (client\<lparr>isAlive := Some False\<rparr> # rest',
         (if readyState client = OPEN then [WsPing (wid client)] else []) @ out))"

definition heartbeat_tick :: "server_state \<Rightarrow> server_state" where
  "heartbeat_tick st =
     (let (cs, out) = heartbeat_each (clients st) in emit out (st\<lparr>clients := cs\<rparr>))"

definition startHeartbeat :: "server_state \<Rightarrow> server_state" where
  "startHeartbeat st =
     st\<lparr>heartbeatInterval := Some (next_timer st),
        timers := timers st @ [next_timer st],
        next_timer := Suc (next_timer st)\<rparr>"

definition clearInterval :: "nat option \<Rightarrow> nat list \<Rightarrow> nat list" where
  "clearInterval h ts = (case h of None \<Rightarrow> ts | Some t \<Rightarrow> removeAll t ts)"

section \<open>The connection handler and the socket listeners\<close>

datatype reason = Unauthorized | CapacityExceeded | OriginCapacityExceeded

datatype decision = Accept | Reject reason

text \<open>
  \<^verbatim>\<open>wss.on("connection", function (ws, req) {...})\<close>. The socket \<open>w\<close> is already a
  member of \<open>clients st\<close> when the handler runs. The first component of the result
  names the \<^verbatim>\<open>return\<close> the handler left by.
\<close>

definition on_connection :: "nat \<Rightarrow> request \<Rightarrow> server_state \<Rightarrow> decision \<times> server_state" where
  "on_connection w req st =
     (let ip = remoteAddress req in
      if \<not> authenticateClient req then
        (Reject Unauthorized,
         emit [Log Warn ''Unauthorized connection attempt'', WsClose w 1008 ''Unauthorized'']
           (st\<lparr>clients := update_ws w ws_close (clients st)\<rparr>))
      else if MAX_TOTAL_CONNECTIONS \<le> int (length (clients st)) then
        (Reject CapacityExceeded,
         emit [Log Warn ''Server at max capacity'', WsClose w 1013 ''Server overloaded'']
           (st\<lparr>clients := update_ws w ws_close (clients st)\<rparr>))
      else
        let connectionsFromIP = get_or_0 (clientConnections st) ip in
        if MAX_CONNECTIONS_PER_IP \<le> connectionsFromIP then
          (Reject OriginCapacityExceeded,
           emit [Log Warn ''Too many connections from IP'', WsClose w 1008 ''Too many connections'']
             (st\<lparr>clients := update_ws w ws_close (clients st)\<rparr>))
        else
          let st1 = st\<lparr>clientConnections := trackClientConnection ip (clientConnections st)\<rparr>;
              st2 = emit [Log Info ''Connection opened''] st1;
              st3 = st2\<lparr>clients :=
                      update_ws w (\<lambda>c. c\<lparr>isAlive := Some True, listeners := True\<rparr>) (clients st2)\<rparr>
          in
          if length (clients st3) = 1 \<and> heartbeatInterval st3 = None then
            (Accept, startHeartbeat (emit [Log Info ''Starting heartbeat interval''] st3))
          else (Accept, st3))"

text \<open>\<^verbatim>\<open>ws.on("message", ...)\<close> of the socket \<open>ws\<close>.\<close>

definition on_message :: "websocket \<Rightarrow> string \<Rightarrow> server_state \<Rightarrow> server_state" where
  "on_message ws stringifiedData st =
     (if stringifiedData = ''pong'' then emit [Log Debug ''Heartbeat pong received''] st
      else broadcast ws stringifiedData False st)"

text \<open>\<^verbatim>\<open>ws.on('pong', ...)\<close>: the listener for the pong control frame.\<close>

definition on_pong :: "nat \<Rightarrow> server_state \<Rightarrow> server_state" where
  "on_pong w st = st\<lparr>clients := update_ws w (\<lambda>c. c\<lparr>isAlive := Some True\<rparr>) (clients st)\<rparr>"

text \<open>\<^verbatim>\<open>ws.on('error', ...)\<close>.\<close>

definition on_error :: "server_state \<Rightarrow> server_state" where
  "on_error st = emit [Log Error ''WebSocket connection error:''] st"

text \<open>
  \<^verbatim>\<open>ws.on("close", ...)\<close> of a socket whose closure variable \<^verbatim>\<open>clientIP\<close> is \<open>ip\<close>;
  the library has removed the socket from \<^verbatim>\<open>wss.clients\<close> before the listener runs.
\<close>

definition on_close :: "string \<Rightarrow> server_state \<Rightarrow> server_state" where
  "on_close ip st =
     (let st1 = st\<lparr>clientConnections := untrackClientConnection ip (clientConnections st)\<rparr>;
          st2 = emit [Log Info ''Connection closed''] st1
      in
      if length (clients st2) = 0 \<and> heartbeatInterval st2 \<noteq> None then
        (emit [Log Info ''Stopping heartbeat interval - no clients connected''] st2)
          \<lparr>timers := clearInterval (heartbeatInterval st2) (timers st2), heartbeatInterval := None\<rparr>
      else st2)"

text \<open>\<^verbatim>\<open>wss.on('close', ...)\<close>: the timer is cleared, the variable keeps the handle.\<close>

definition on_server_close :: "server_state \<Rightarrow> server_state" where
  "on_server_close st = st\<lparr>timers := clearInterval (heartbeatInterval st) (timers st)\<rparr>"

section \<open>Events\<close>

text \<open>
  What the environment (the \<^verbatim>\<open>ws\<close> library and the timer queue) delivers.
  \<open>Connection req\<close>: a handshake completed; the library creates an open socket, adds
  it to \<^verbatim>\<open>wss.clients\<close> and emits 'connection'. \<open>Closing w\<close>: the closing handshake of
  \<open>w\<close> began on the peer's side (no listener of the program runs). \<open>Close w\<close>: the
  library removes \<open>w\<close> from \<^verbatim>\<open>wss.clients\<close> and emits 'close' on it. \<open>Tick\<close>: a
  scheduled interval timer fires. An event for a socket that is not in
  \<^verbatim>\<open>wss.clients\<close>, or a tick with no timer scheduled, cannot happen and changes nothing.
\<close>

datatype event =
    Connection request
  | Message nat string
  | Pong nat
  | SocketError nat
  | Closing nat
  | Close nat
  | Tick
  | ServerClose

definition new_socket :: "nat \<Rightarrow> request \<Rightarrow> websocket" where
  "new_socket w req =
     \<lparr>wid = w, readyState = OPEN, isAlive = None, clientIP = remoteAddress req, listeners = False\<rparr>"

text \<open>The library's part of a new connection: the socket joins \<^verbatim>\<open>wss.clients\<close>.\<close>

definition arrive :: "request \<Rightarrow> server_state \<Rightarrow> server_state" where
  "arrive req st =
     st\<lparr>clients := clients st @ [new_socket (next_wid st) req], next_wid := Suc (next_wid st)\<rparr>"

definition connect :: "request \<Rightarrow> server_state \<Rightarrow> decision \<times> server_state" where
  "connect req st = on_connection (next_wid st) req (arrive req st)"

fun step :: "event \<Rightarrow> server_state \<Rightarrow> server_state" where
  "step (Connection req) st = snd (connect req st)"
| "step (Message w data) st =
     (case find_ws w (clients st) of
        None \<Rightarrow> st
      | Some ws \<Rightarrow> if listeners ws then on_message ws data st else st)"
| "step (Pong w) st =
     (case find_ws w (clients st) of
        None \<Rightarrow> st
      | Some ws \<Rightarrow> if listeners ws then on_pong w st else st)"
| "step (SocketError w) st =
     (case find_ws w (clients st) of
        None \<Rightarrow> st
      | Some ws \<Rightarrow> if listeners ws then on_error st else st)"
| "step (Closing w) st = st\<lparr>clients := update_ws w ws_close (clients st)\<rparr>"
| "step (Close w) st =
     (case find_ws w (clients st) of
        None \<Rightarrow> st
      | Some ws \<Rightarrow>
          let st1 = st\<lparr>clients := remove_ws w (clients st)\<rparr> in
          if listeners ws then on_close (clientIP ws) st1 else st1)"
| "step Tick st = (if timers st = [] then st else heartbeat_tick st)"
| "step ServerClose st = on_server_close st"

fun run :: "event list \<Rightarrow> server_state \<Rightarrow> server_state" where
  "run [] st = st"
| "run (e # es) st = run es (step e st)"

text \<open>The calls an event makes, given the state it arrives in.\<close>

definition outputs :: "event \<Rightarrow> server_state \<Rightarrow> effect list" where
  "outputs e st = io (step e (st\<lparr>io := []\<rparr>))"

section \<open>Concrete inputs\<close>

definition valid_request :: "string \<Rightarrow> request" where
  "valid_request ip = \<lparr>remoteAddress = ip, authorization = Some ''Bearer valid-token''\<rparr>"

definition invalid_request :: "string \<Rightarrow> request" where
  "invalid_request ip = \<lparr>remoteAddress = ip, authorization = Some ''Bearer wrong''\<rparr>"

text \<open>Ten admitted connections from one origin.\<close>

definition ten_from :: "string \<Rightarrow> event list" where
  "ten_from ip = replicate 10 (Connection (valid_request ip))"

text \<open>
  A state with \<open>n\<close> admitted open sockets, ten from each origin in turn (the origins are
  \<open>a\<close>, \<open>aa\<close>, \<open>aaa\<close>, ...), and the heartbeat timer 0 running.
\<close>

definition origin_of :: "nat \<Rightarrow> string" where
  "origin_of i = replicate (Suc (i div 10)) (CHR ''a'')"

fun admitted_sockets :: "nat \<Rightarrow> websocket list" where
  "admitted_sockets 0 = []"
| "admitted_sockets (Suc n) =
     admitted_sockets n @
     [\<lparr>wid = n, readyState = OPEN, isAlive = Some True, clientIP = origin_of n, listeners = True\<rparr>]"

fun origin_counts :: "nat \<Rightarrow> (string \<times> int) list" where
  "origin_counts 0 = []"
| "origin_counts (Suc n) = trackClientConnection (origin_of n) (origin_counts n)"

definition busy_state :: "nat \<Rightarrow> server_state" where
  "busy_state n = \<lparr>clients = admitted_sockets n, clientConnections = origin_counts n,
     heartbeatInterval = Some 0, timers = [0], next_timer = 1, next_wid = n, io = []\<rparr>"

text \<open>
  The first \<open>n\<close> of a series of connections with a valid token, ten from each of the
  origins above.
\<close>

definition conns :: "nat \<Rightarrow> event list" where
  "conns n = map (\<lambda>i. Connection (valid_request (origin_of i))) [0..<n]"

section \<open>Observations on a state\<close>

text \<open>
  The active connections are the admitted sockets that have not closed yet: the members
  of \<^verbatim>\<open>wss.clients\<close> that carry the listeners. \<open>sum_counts\<close> is the sum of the
  values of the per-IP map.
\<close>

definition activeConnections :: "server_state \<Rightarrow> websocket list" where
  "activeConnections st = filter listeners (clients st)"

definition sum_counts :: "(string \<times> int) list \<Rightarrow> int" where
  "sum_counts m = sum_list (map snd m)"

definition from_ip :: "string \<Rightarrow> websocket list \<Rightarrow> nat" where
  "from_ip ip cs = length (filter (\<lambda>c. listeners c \<and> clientIP c = ip) cs)"

definition close_codes :: "effect list \<Rightarrow> int list" where
  "close_codes es = concat (map (\<lambda>e. case e of WsClose w code r \<Rightarrow> [code] | _ \<Rightarrow> []) es)"

definition close_reasons :: "effect list \<Rightarrow> string list" where
  "close_reasons es = concat (map (\<lambda>e. case e of WsClose w code r \<Rightarrow> [r] | _ \<Rightarrow> []) es)"

definition recipients :: "effect list \<Rightarrow> nat list" where
  "recipients es = concat (map (\<lambda>e. case e of WsSend w p \<Rightarrow> [w] | _ \<Rightarrow> []) es)"

text \<open>Socket identities are unique and never reused.\<close>

definition wf_state :: "server_state \<Rightarrow> bool" where
  "wf_state st = (distinct (map wid (clients st)) \<and> list_all (\<lambda>c. wid c < next_wid st) (clients st))"

text \<open>
  \<open>quiet w evs\<close>: in \<open>evs\<close> the socket \<open>w\<close> sends no pong frame and does not close, and
  the server is not shut down.
\<close>

fun quiet :: "nat \<Rightarrow> event list \<Rightarrow> bool" where
  "quiet w [] = True"
| "quiet w (Pong w' # evs) = (w' \<noteq> w \<and> quiet w evs)"
| "quiet w (Close w' # evs) = (w' \<noteq> w \<and> quiet w evs)"
| "quiet w (ServerClose # evs) = False"
| "quiet w (e # evs) = quiet w evs"

text \<open>
  \<open>answers w alive evs\<close>: every tick of \<open>evs\<close> comes after a pong frame of \<open>w\<close> that
  arrived since the tick before it; \<open>alive\<close> tells whether one has arrived already.
\<close>

fun answers :: "nat \<Rightarrow> bool \<Rightarrow> event list \<Rightarrow> bool" where
  "answers w alive [] = True"
| "answers w alive (Tick # evs) = (alive \<and> answers w False evs)"
| "answers w alive (Pong w' # evs) = answers w (alive \<or> w' = w) evs"
| "answers w alive (e # evs) = answers w alive evs"

section \<open>The HTTP listener\<close>

text \<open>
  \<^verbatim>\<open>server.on('error', ...)\<close> and \<^verbatim>\<open>server.listen(serverPort)\<close>. \<open>pending\<close> holds the
  delays (in ms) of the callbacks scheduled with \<^verbatim>\<open>setTimeout\<close> that have not run yet;
  \<open>listen_calls\<close> and \<open>close_calls\<close> count the calls of \<^verbatim>\<open>server.listen\<close> and
  \<^verbatim>\<open>server.close\<close>.
\<close>

record http_server =
  pending :: "nat list"
  listen_calls :: nat
  close_calls :: nat
  server_log :: "string list"

datatype listen_result = Listening | ListenError string

definition server_on_error :: "string \<Rightarrow> http_server \<Rightarrow> http_server" where
  "server_on_error code s =
     (let s1 = s\<lparr>server_log := server_log s @ [''HTTP Server error:'']\<rparr> in
      if code = ''EADDRINUSE'' then
        s1\<lparr>server_log := server_log s1 @ [''Port already in use, retrying...''],
           pending := pending s1 @ [1000]\<rparr>
      else s1)"

text \<open>The callback given to \<^verbatim>\<open>setTimeout\<close>: \<^verbatim>\<open>server.close(); server.listen(serverPort)\<close>.\<close>

definition retry_callback :: "http_server \<Rightarrow> http_server" where
  "retry_callback s = s\<lparr>close_calls := Suc (close_calls s), listen_calls := Suc (listen_calls s)\<rparr>"

text \<open>The state after \<^verbatim>\<open>server.listen(serverPort)\<close> of line 91.\<close>

definition server_started :: http_server where
  "server_started = \<lparr>pending = [], listen_calls = 1, close_calls = 0, server_log = []\<rparr>"

text \<open>
  An execution of the listener: the list gives the outcome of each call of
  \<^verbatim>\<open>server.listen\<close> in turn. A failed call emits 'error'; the handler runs, and a
  scheduled callback then runs and calls \<^verbatim>\<open>server.listen\<close> again.
\<close>

fun listener_run :: "listen_result list \<Rightarrow> http_server \<Rightarrow> http_server" where
  "listener_run [] s = s"
| "listener_run (Listening # rs) s = s"
| "listener_run (ListenError code # rs) s =
     (let s1 = server_on_error code s in
      case pending s1 of
        [] \<Rightarrow> s1
      | d # ds \<Rightarrow> listener_run rs (retry_callback (s1\<lparr>pending := ds\<rparr>)))"

definition bind_failures :: "listen_result list \<Rightarrow> nat" where
  "bind_failures rs = length (takeWhile (\<lambda>r. r = ListenError ''EADDRINUSE'') rs)"

text \<open>Every stored count is at least 1.\<close>

definition pos_counts :: "(string \<times> int) list \<Rightarrow> bool" where
  "pos_counts m = (\<forall>k v. map_of m k = Some v \<longrightarrow> 1 \<le> v)"

section \<open>Invariants of the reachable states\<close>

text \<open>What the bookkeeping reads of a socket: identity, origin and admission.\<close>

definition ident :: "websocket \<Rightarrow> nat \<times> string \<times> bool" where
  "ident c = (wid c, clientIP c, listeners c)"

text \<open>
  The per-IP map has one entry per origin with an active connection, holding the number
  of active connections from that origin, and its values sum to the number of active
  connections.
\<close>

definition counts_inv :: "server_state \<Rightarrow> bool" where
  "counts_inv st =
     (distinct (map fst (clientConnections st)) \<and>
      (\<forall>ip. map_of (clientConnections st) ip =
         (if from_ip ip (clients st) = 0 then None else Some (int (from_ip ip (clients st))))) \<and>
      sum_counts (clientConnections st) = int (length (activeConnections st)))"

text \<open>The only timer that can be scheduled is the one \<open>heartbeatInterval\<close> holds.\<close>

definition timers_inv :: "server_state \<Rightarrow> bool" where
  "timers_inv st = (timers st = [] \<or> (\<exists>t. heartbeatInterval st = Some t \<and> timers st = [t]))"

definition state_inv :: "server_state \<Rightarrow> bool" where
  "state_inv st = (wf_state st \<and> counts_inv st \<and> timers_inv st)"

text \<open>The socket after the connection handler admitted it.\<close>

definition admitted :: "websocket \<Rightarrow> websocket" where
  "admitted c = c\<lparr>isAlive := Some True, listeners := True\<rparr>"

section \<open>Invariants of the heartbeat\<close>

text \<open>
  \<open>unanswered w s\<close>: the heartbeat runs and the socket \<open>w\<close> has been probed without an
  answer. \<open>responsive w alive s\<close>: the socket \<open>w\<close>, if it is still connected, was
  admitted, and its flag is set when \<open>alive\<close> says so.
\<close>

definition unanswered :: "nat \<Rightarrow> server_state \<Rightarrow> bool" where
  "unanswered w s =
     (wf_state s \<and> timers s \<noteq> [] \<and> (\<exists>c. find_ws w (clients s) = Some c \<and> isAlive c = Some False))"

definition responsive :: "nat \<Rightarrow> bool \<Rightarrow> server_state \<Rightarrow> bool" where
  "responsive w alive s =
     (wf_state s \<and> w < next_wid s \<and>
      (case find_ws w (clients s) of
         None \<Rightarrow> True
       | Some c \<Rightarrow> listeners c \<and> (alive \<longrightarrow> isAlive c = Some True)))"

section \<open>The per-IP counters\<close>

lemma get_or_0_eq: "get_or_0 m ip = (case map_of m ip of None \<Rightarrow> 0 | Some v \<Rightarrow> v)"
  by (simp add: get_or_0_def split: option.splits)

lemma sum_update_None: "map_of m k = None \<Longrightarrow> sum_counts (AList.update k v m) = sum_counts m + v"
  by (induction m) (auto simp: sum_counts_def split: if_splits)

lemma sum_update_Some: "map_of m k = Some v0 \<Longrightarrow> sum_counts (AList.update k v m) = sum_counts m - v0 + v"
  by (induction m) (auto simp: sum_counts_def split: if_splits)

lemma delete_absent: "map_of m k = None \<Longrightarrow> AList.delete k m = m"
  by (rule AList.delete_id) (simp add: map_of_eq_None_iff)

lemma sum_delete_Some:
  "distinct (map fst m) \<Longrightarrow> map_of m k = Some v0 \<Longrightarrow> sum_counts (AList.delete k m) = sum_counts m - v0"
proof (induction m)
  case Nil
  then show ?case by simp
next
  case (Cons p m)
  show ?case
  proof (cases "fst p = k")
    case True
    with Cons.prems have "k \<notin> fst ` set m" and "snd p = v0" by auto
    then have "AList.delete k m = m" by simp
    with True \<open>snd p = v0\<close> show ?thesis
      by (cases p) (simp add: sum_counts_def)
  next
    case False
    with Cons show ?thesis
      by (cases p) (simp add: sum_counts_def)
  qed
qed

lemma untrack_absent: "map_of m ip = None \<Longrightarrow> untrackClientConnection ip m = m"
  by (simp add: untrackClientConnection_def get_or_0_eq delete_absent)

lemma sum_track: "sum_counts (trackClientConnection ip m) = sum_counts m + 1"
  by (cases "map_of m ip") (simp_all add: trackClientConnection_def get_or_0_eq sum_update_None sum_update_Some)

lemma sum_untrack:
  "distinct (map fst m) \<Longrightarrow> map_of m ip = Some v \<Longrightarrow> 1 \<le> v \<Longrightarrow>
   sum_counts (untrackClientConnection ip m) = sum_counts m - 1"
  by (simp add: untrackClientConnection_def get_or_0_eq sum_update_Some sum_delete_Some)

lemma map_of_track:
  "map_of (trackClientConnection ip m) = (map_of m)(ip \<mapsto> get_or_0 m ip + 1)"
  by (simp add: trackClientConnection_def update_conv')

lemma map_of_untrack:
  "map_of (untrackClientConnection ip m) =
     (if get_or_0 m ip \<le> 1 then (map_of m)(ip := None) else (map_of m)(ip \<mapsto> get_or_0 m ip - 1))"
  by (simp add: untrackClientConnection_def update_conv' delete_conv')

lemma distinct_track: "distinct (map fst m) \<Longrightarrow> distinct (map fst (trackClientConnection ip m))"
  by (simp add: trackClientConnection_def distinct_update)

lemma distinct_untrack: "distinct (map fst m) \<Longrightarrow> distinct (map fst (untrackClientConnection ip m))"
  by (simp add: untrackClientConnection_def Let_def distinct_update distinct_delete)

lemma pos_get_or_0: "pos_counts m \<Longrightarrow> 0 \<le> get_or_0 m ip"
proof (cases "map_of m ip")
  case None
  then show ?thesis by (simp add: get_or_0_eq)
next
  case (Some v)
  assume "pos_counts m"
  with Some have "1 \<le> v" by (simp add: pos_counts_def)
  with Some show ?thesis by (simp add: get_or_0_eq)
qed

lemma pos_track: "pos_counts m \<Longrightarrow> pos_counts (trackClientConnection ip m)"
  using pos_get_or_0[of m ip] by (auto simp: pos_counts_def map_of_track)

lemma pos_untrack: "pos_counts m \<Longrightarrow> pos_counts (untrackClientConnection ip m)"
  by (auto simp: pos_counts_def map_of_untrack split: if_splits)

lemma pos_apply_calls: "pos_counts m \<Longrightarrow> pos_counts (apply_calls cs m)"
proof (induction cs arbitrary: m)
  case Nil
  then show ?case by simp
next
  case (Cons c cs)
  then show ?case by (cases c) (simp_all add: pos_track pos_untrack)
qed

lemma distinct_apply_calls: "distinct (map fst m) \<Longrightarrow> distinct (map fst (apply_calls cs m))"
proof (induction cs arbitrary: m)
  case Nil
  then show ?case by simp
next
  case (Cons c cs)
  then show ?case by (cases c) (simp_all add: distinct_track distinct_untrack)
qed

lemma pos_counts_values:
  "distinct (map fst m) \<Longrightarrow> pos_counts m \<Longrightarrow> v \<in> snd ` set m \<Longrightarrow> 1 \<le> v"
  by (auto simp: pos_counts_def)

text \<open>
  Claim C10. \<^verbatim>\<open>untrackClientConnection\<close> for an origin with no entry in the map leaves
  the map as it is, and after any sequence of \<^verbatim>\<open>trackClientConnection\<close> and
  \<^verbatim>\<open>untrackClientConnection\<close> calls on the empty map every stored value is at least 1.
\<close>

theorem C10_untrack_noop_and_counts_positive:
  "(map_of m ip = None \<longrightarrow> untrackClientConnection ip m = m) \<and>
   (\<forall>v \<in> snd ` set (apply_calls cs []). 1 \<le> v)"
proof -
  have "pos_counts []" by (simp add: pos_counts_def)
  then have "pos_counts (apply_calls cs [])" by (rule pos_apply_calls)
  moreover have "distinct (map fst (apply_calls cs []))" by (rule distinct_apply_calls) simp
  ultimately show ?thesis
    by (auto simp: untrack_absent dest: pos_counts_values)
qed

theorem C10_witness:
  "map_of [(''a'', 2::int)] ''b'' = None \<and>
   untrackClientConnection ''b'' [(''a'', 2)] = [(''a'', 2)] \<and>
   apply_calls [Track ''a'', Track ''b'', Track ''a'', Untrack ''b'', Untrack ''c''] [] = [(''a'', 2)] \<and>
   (2::int) \<in> snd ` set (apply_calls [Track ''a'', Track ''b'', Track ''a'', Untrack ''b'', Untrack ''c''] []) \<and>
   (1::int) \<le> 2"
  using C10_untrack_noop_and_counts_positive [of "[(''a'', 2)]" "''b''"
      "[Track ''a'', Track ''b'', Track ''a'', Untrack ''b'', Untrack ''c'']"]
  by (simp add: trackClientConnection_def untrackClientConnection_def get_or_0_def)

section \<open>The state machine\<close>

subsection \<open>Recorded calls\<close>

lemma emit_simps [simp]:
  "clients (emit es st) = clients st"
  "clientConnections (emit es st) = clientConnections st"
  "heartbeatInterval (emit es st) = heartbeatInterval st"
  "timers (emit es st) = timers st"
  "next_timer (emit es st) = next_timer st"
  "next_wid (emit es st) = next_wid st"
  "io (emit es st) = io st @ es"
  by (simp_all add: emit_def)

lemma emit_emit: "emit b (emit a st) = emit (a @ b) st"
  by (simp add: emit_def)

lemma emit_Nil: "emit [] st = st"
  by (simp add: emit_def)

lemma forEach_send:
  "forEach (\<lambda>client s. if P client then send client message s else s) cs st =
   emit (map (\<lambda>c. WsSend (wid c) message) (filter P cs)) st"
proof (induction cs arbitrary: st)
  case Nil
  then show ?case by (simp add: emit_Nil)
next
  case (Cons c cs)
  then show ?case by (simp add: send_def emit_emit)
qed

lemma broadcast_eq:
  "broadcast ws message includeSelf st =
   emit (map (\<lambda>c. WsSend (wid c) message)
          (filter (\<lambda>c. (includeSelf \<or> wid c \<noteq> wid ws) \<and> readyState c = OPEN) (clients st))) st"
  by (simp add: broadcast_def forEach_send)

subsection \<open>Handlers that keep identity, origin and admission of every socket\<close>

lemma from_ip_ident:
  "from_ip ip cs = length (filter (\<lambda>k. snd (snd k) \<and> fst (snd k) = ip) (map ident cs))"
  by (simp add: from_ip_def filter_map comp_def ident_def)

lemma active_ident:
  "length (filter listeners cs) = length (filter (\<lambda>k. snd (snd k)) (map ident cs))"
  by (simp add: filter_map comp_def ident_def)

lemma wid_ident: "map wid cs = map fst (map ident cs)"
  by (simp add: ident_def)

lemma ident_update_ws:
  "(\<And>c. ident (f c) = ident c) \<Longrightarrow> map ident (update_ws w f cs) = map ident cs"
  by (simp add: update_ws_def)

lemma ident_ws_close [simp]: "ident (ws_close c) = ident c"
  by (simp add: ident_def ws_close_def)

lemma ident_ws_terminate [simp]: "ident (ws_terminate c) = ident c"
  by (simp add: ident_def ws_terminate_def)

lemma ident_isAlive [simp]: "ident (c\<lparr>isAlive := b\<rparr>) = ident c"
  by (simp add: ident_def)

lemma ident_heartbeat_each: "map ident (fst (heartbeat_each cs)) = map ident cs"
  by (induction cs) (simp_all add: split_beta Let_def)

lemma same_ident:
  assumes "map ident cs' = map ident cs"
  shows "from_ip ip cs' = from_ip ip cs"
    and "length (filter listeners cs') = length (filter listeners cs)"
    and "map wid cs' = map wid cs"
  using assms by (simp_all only: from_ip_ident active_ident wid_ident)

subsection \<open>A new connection\<close>

lemma update_ws_absent: "w \<notin> wid ` set cs \<Longrightarrow> update_ws w f cs = cs"
  by (induction cs) (auto simp: update_ws_def)

lemma update_ws_fresh:
  "w \<notin> wid ` set cs \<Longrightarrow> wid n = w \<Longrightarrow> update_ws w f (cs @ [n]) = cs @ [f n]"
  using update_ws_absent[of w cs f] by (simp add: update_ws_def)

lemma update_ws_single: "wid n = w \<Longrightarrow> update_ws w f [n] = [f n]"
  by (simp add: update_ws_def)

lemma wf_fresh: "wf_state st \<Longrightarrow> next_wid st \<notin> wid ` set (clients st)"
  by (auto simp: wf_state_def list_all_iff)

lemma wid_new_socket [simp]: "wid (new_socket w req) = w"
  by (simp add: new_socket_def)

lemma connect_clients:
  assumes "wf_state st"
  shows "clients (snd (connect req st)) =
     clients st @ [if fst (connect req st) = Accept then admitted (new_socket (next_wid st) req)
                   else ws_close (new_socket (next_wid st) req)]"
  using wf_fresh[OF assms]
  by (simp add: connect_def arrive_def on_connection_def Let_def update_ws_fresh update_ws_single startHeartbeat_def admitted_def)

lemma connect_counts:
  "clientConnections (snd (connect req st)) =
     (if fst (connect req st) = Accept
      then trackClientConnection (remoteAddress req) (clientConnections st)
      else clientConnections st)"
  by (simp add: connect_def arrive_def on_connection_def Let_def startHeartbeat_def)

lemma connect_next_wid: "next_wid (snd (connect req st)) = Suc (next_wid st)"
  by (simp add: connect_def arrive_def on_connection_def Let_def startHeartbeat_def)


lemma connect_timers:
  "timers_inv st \<Longrightarrow> timers_inv (snd (connect req st))"
  by (auto simp: timers_inv_def connect_def arrive_def on_connection_def Let_def startHeartbeat_def)

subsection \<open>Preservation of the invariants\<close>

lemma wf_state_ident:
  "wf_state st = (distinct (map fst (map ident (clients st))) \<and>
     (\<forall>w \<in> set (map fst (map ident (clients st))). w < next_wid st))"
  by (auto simp: wf_state_def list_all_iff ident_def comp_def)

lemma wf_state_same:
  "map ident (clients st') = map ident (clients st) \<Longrightarrow> next_wid st' = next_wid st \<Longrightarrow>
   wf_state st \<Longrightarrow> wf_state st'"
  by (simp add: wf_state_ident)

lemma counts_inv_same:
  assumes "map ident (clients st') = map ident (clients st)"
    and "clientConnections st' = clientConnections st" and "counts_inv st"
  shows "counts_inv st'"
  using assms(2,3) same_ident(1,2)[OF assms(1)]
  by (simp add: counts_inv_def activeConnections_def)

lemma timers_inv_same:
  "timers st' = timers st \<Longrightarrow> heartbeatInterval st' = heartbeatInterval st \<Longrightarrow>
   timers_inv st \<Longrightarrow> timers_inv st'"
  by (simp add: timers_inv_def)

lemma inv_same:
  "map ident (clients st') = map ident (clients st) \<Longrightarrow> next_wid st' = next_wid st \<Longrightarrow>
   clientConnections st' = clientConnections st \<Longrightarrow>
   timers st' = timers st \<Longrightarrow> heartbeatInterval st' = heartbeatInterval st \<Longrightarrow>
   state_inv st \<Longrightarrow> state_inv st'"
  unfolding state_inv_def by (blast intro: wf_state_same counts_inv_same timers_inv_same)

lemma heartbeat_tick_fields [simp]:
  "clients (heartbeat_tick st) = fst (heartbeat_each (clients st))"
  "clientConnections (heartbeat_tick st) = clientConnections st"
  "heartbeatInterval (heartbeat_tick st) = heartbeatInterval st"
  "timers (heartbeat_tick st) = timers st"
  "next_wid (heartbeat_tick st) = next_wid st"
  "io (heartbeat_tick st) = io st @ snd (heartbeat_each (clients st))"
  by (simp_all add: heartbeat_tick_def split_beta)

lemma inv_message: "state_inv st \<Longrightarrow> state_inv (step (Message w d) st)"
  by (erule inv_same[rotated -1])
     (simp_all add: on_message_def broadcast_eq split: option.splits)

lemma inv_pong: "state_inv st \<Longrightarrow> state_inv (step (Pong w) st)"
  by (erule inv_same[rotated -1])
     (simp_all add: on_pong_def ident_update_ws split: option.splits)

lemma inv_error: "state_inv st \<Longrightarrow> state_inv (step (SocketError w) st)"
  by (erule inv_same[rotated -1])
     (simp_all add: on_error_def split: option.splits)

lemma inv_closing: "state_inv st \<Longrightarrow> state_inv (step (Closing w) st)"
  by (erule inv_same[rotated -1]) (simp_all add: ident_update_ws)

lemma inv_tick: "state_inv st \<Longrightarrow> state_inv (step Tick st)"
  by (erule inv_same[rotated -1]) (simp_all add: ident_heartbeat_each)

lemma inv_server_close: "state_inv st \<Longrightarrow> state_inv (step ServerClose st)"
  unfolding state_inv_def
proof (intro conjI)
  assume a: "wf_state st \<and> counts_inv st \<and> timers_inv st"
  then show "wf_state (step ServerClose st)"
    by (auto intro: wf_state_same simp: on_server_close_def)
  from a show "counts_inv (step ServerClose st)"
    by (auto intro: counts_inv_same simp: on_server_close_def)
  from a show "timers_inv (step ServerClose st)"
    by (auto simp: timers_inv_def on_server_close_def clearInterval_def split: option.splits)
qed


lemma get_or_0_inv:
  "counts_inv st \<Longrightarrow> get_or_0 (clientConnections st) ip = int (from_ip ip (clients st))"
  by (simp add: counts_inv_def get_or_0_eq)

lemma from_ip_snoc:
  "from_ip ip (cs @ [c]) = from_ip ip cs + (if listeners c \<and> clientIP c = ip then 1 else 0)"
  by (simp add: from_ip_def)

lemma wf_connect: "wf_state st \<Longrightarrow> wf_state (snd (connect req st))"
proof -
  assume wf: "wf_state st"
  have "wid (admitted (new_socket (next_wid st) req)) = next_wid st"
    and "wid (ws_close (new_socket (next_wid st) req)) = next_wid st"
    by (simp_all add: admitted_def ws_close_def)
  with wf wf_fresh[OF wf] show ?thesis
    by (auto simp: wf_state_def connect_clients[OF wf] connect_next_wid list_all_iff less_Suc_eq)
qed

lemma counts_connect:
  assumes wf: "wf_state st" and ci: "counts_inv st"
  shows "counts_inv (snd (connect req st))"
proof (cases "fst (connect req st) = Accept")
  case True
  let ?n = "admitted (new_socket (next_wid st) req)"
  have cl: "clients (snd (connect req st)) = clients st @ [?n]"
    using True by (simp add: connect_clients[OF wf])
  have cc: "clientConnections (snd (connect req st)) =
      trackClientConnection (remoteAddress req) (clientConnections st)"
    using True by (simp add: connect_counts)
  have n: "listeners ?n" "clientIP ?n = remoteAddress req"
    by (simp_all add: admitted_def new_socket_def)
  have d: "distinct (map fst (trackClientConnection (remoteAddress req) (clientConnections st)))"
    using ci by (simp add: counts_inv_def distinct_track)
  have s: "sum_counts (trackClientConnection (remoteAddress req) (clientConnections st)) =
      int (length (filter listeners (clients st @ [?n])))"
    using ci n by (simp add: sum_track counts_inv_def activeConnections_def)
  have m: "map_of (trackClientConnection (remoteAddress req) (clientConnections st)) ip =
      (if from_ip ip (clients st @ [?n]) = 0 then None
       else Some (int (from_ip ip (clients st @ [?n]))))" for ip
    using ci n by (simp add: map_of_track get_or_0_inv[OF ci] from_ip_snoc counts_inv_def)
  show ?thesis
    unfolding counts_inv_def cl cc activeConnections_def using d s m by blast
next
  case False
  let ?n = "ws_close (new_socket (next_wid st) req)"
  have cl: "clients (snd (connect req st)) = clients st @ [?n]"
    using False by (simp add: connect_clients[OF wf])
  have cc: "clientConnections (snd (connect req st)) = clientConnections st"
    using False by (simp add: connect_counts)
  have n: "\<not> listeners ?n"
    by (simp add: ws_close_def new_socket_def)
  show ?thesis
    unfolding counts_inv_def cl cc activeConnections_def using ci n
    by (simp add: counts_inv_def activeConnections_def from_ip_snoc)
qed

lemma inv_connection: "state_inv st \<Longrightarrow> state_inv (step (Connection req) st)"
  by (simp add: state_inv_def wf_connect counts_connect connect_timers)


lemma remove_ws_absent: "w \<notin> wid ` set cs \<Longrightarrow> remove_ws w cs = cs"
  by (induction cs) (auto simp: remove_ws_def)

lemma filter_remove_ws:
  "distinct (map wid cs) \<Longrightarrow> find_ws w cs = Some c \<Longrightarrow>
   length (filter P cs) = length (filter P (remove_ws w cs)) + (if P c then 1 else 0)"
proof (induction cs)
  case Nil
  then show ?case by simp
next
  case (Cons a cs)
  show ?case
  proof (cases "wid a = w")
    case True
    with Cons.prems have "a = c" and "w \<notin> wid ` set cs" by auto
    then have "remove_ws w (a # cs) = cs"
      using True remove_ws_absent[of w cs] by (simp add: remove_ws_def)
    with \<open>a = c\<close> show ?thesis by simp
  next
    case False
    with Cons show ?thesis by (simp add: remove_ws_def)
  qed
qed

lemma wf_remove: "wf_state st \<Longrightarrow> wf_state (st\<lparr>clients := remove_ws w (clients st)\<rparr>)"
  by (auto simp: wf_state_def remove_ws_def list_all_iff distinct_map_filter)

lemma on_close_fields [simp]:
  "clients (on_close ip st) = clients st"
  "next_wid (on_close ip st) = next_wid st"
  "clientConnections (on_close ip st) = untrackClientConnection ip (clientConnections st)"
  by (simp_all add: on_close_def Let_def)

lemma on_close_timers: "timers_inv st \<Longrightarrow> timers_inv (on_close ip st)"
  by (auto simp: timers_inv_def on_close_def Let_def clearInterval_def)

lemma counts_close:
  assumes wf: "wf_state st" and ci: "counts_inv st"
    and f: "find_ws w (clients st) = Some c" and l: "listeners c"
  shows "counts_inv (on_close (clientIP c) (st\<lparr>clients := remove_ws w (clients st)\<rparr>))"
proof -
  let ?cs = "clients st" and ?cs' = "remove_ws w (clients st)" and ?m = "clientConnections st"
  have d: "distinct (map wid ?cs)" using wf by (simp add: wf_state_def)
  have fi: "from_ip ip ?cs = from_ip ip ?cs' + (if clientIP c = ip then 1 else 0)" for ip
    using filter_remove_ws[OF d f, of "\<lambda>c. listeners c \<and> clientIP c = ip"] l
    by (simp add: from_ip_def)
  have ac: "length (filter listeners ?cs) = length (filter listeners ?cs') + 1"
    using filter_remove_ws[OF d f, of listeners] l by simp
  have g: "get_or_0 ?m (clientIP c) = int (from_ip (clientIP c) ?cs') + 1"
    using get_or_0_inv[OF ci, of "clientIP c"] fi[of "clientIP c"] by simp
  have mo: "map_of ?m (clientIP c) = Some (int (from_ip (clientIP c) ?cs') + 1)"
    using ci fi[of "clientIP c"] by (simp add: counts_inv_def)
  have dm: "distinct (map fst ?m)" using ci by (simp add: counts_inv_def)
  have s: "sum_counts (untrackClientConnection (clientIP c) ?m) = int (length (filter listeners ?cs'))"
    using sum_untrack[OF dm mo] ci ac by (simp add: counts_inv_def activeConnections_def)
  have m: "map_of (untrackClientConnection (clientIP c) ?m) ip =
      (if from_ip ip ?cs' = 0 then None else Some (int (from_ip ip ?cs')))" for ip
    using ci fi[of ip] by (simp add: map_of_untrack g counts_inv_def)
  show ?thesis
    unfolding counts_inv_def activeConnections_def
    using s m distinct_untrack[OF dm] by simp
qed

lemma counts_close_unlistened:
  assumes wf: "wf_state st" and ci: "counts_inv st"
    and f: "find_ws w (clients st) = Some c" and l: "\<not> listeners c"
  shows "counts_inv (st\<lparr>clients := remove_ws w (clients st)\<rparr>)"
proof -
  have d: "distinct (map wid (clients st))" using wf by (simp add: wf_state_def)
  have "from_ip ip (clients st) = from_ip ip (remove_ws w (clients st))" for ip
    using filter_remove_ws[OF d f, of "\<lambda>c. listeners c \<and> clientIP c = ip"] l
    by (simp add: from_ip_def)
  moreover have "length (filter listeners (clients st)) = length (filter listeners (remove_ws w (clients st)))"
    using filter_remove_ws[OF d f, of listeners] l by simp
  ultimately show ?thesis
    using ci by (simp add: counts_inv_def activeConnections_def)
qed

lemma inv_close: "state_inv st \<Longrightarrow> state_inv (step (Close w) st)"
proof (cases "find_ws w (clients st)")
  case None
  assume "state_inv st"
  with None show ?thesis by simp
next
  case (Some c)
  assume i: "state_inv st"
  let ?st1 = "st\<lparr>clients := remove_ws w (clients st)\<rparr>"
  have wf1: "wf_state ?st1" using i by (simp add: state_inv_def wf_remove)
  have t1: "timers_inv ?st1" using i by (simp add: state_inv_def timers_inv_def)
  show ?thesis
  proof (cases "listeners c")
    case True
    have "wf_state (on_close (clientIP c) ?st1)"
      using wf1 by (simp add: wf_state_def)
    moreover have "counts_inv (on_close (clientIP c) ?st1)"
      using i Some True by (simp add: state_inv_def counts_close)
    moreover have "timers_inv (on_close (clientIP c) ?st1)"
      using t1 by (rule on_close_timers)
    ultimately show ?thesis using Some True by (simp add: state_inv_def)
  next
    case False
    have "counts_inv ?st1" using i Some False by (simp add: state_inv_def counts_close_unlistened)
    with wf1 t1 show ?thesis using Some False by (simp add: state_inv_def)
  qed
qed

lemma inv_step: "state_inv st \<Longrightarrow> state_inv (step e st)"
  by (cases e)
     (simp_all only: inv_connection inv_message inv_pong inv_error inv_closing inv_close
        inv_tick inv_server_close)

lemma inv_run: "state_inv st \<Longrightarrow> state_inv (run evs st)"
  by (induction evs arbitrary: st) (simp_all add: inv_step)

lemma inv_init: "state_inv init_state"
  by (simp add: state_inv_def init_state_def wf_state_def counts_inv_def timers_inv_def
      from_ip_def sum_counts_def activeConnections_def)

lemma no_zero_count: "counts_inv st \<Longrightarrow> 0 \<notin> snd ` set (clientConnections st)"
proof
  assume ci: "counts_inv st" and "0 \<in> snd ` set (clientConnections st)"
  then obtain k where "(k, 0) \<in> set (clientConnections st)" by force
  moreover from ci have "distinct (map fst (clientConnections st))" by (simp add: counts_inv_def)
  ultimately have "map_of (clientConnections st) k = Some 0" by simp
  moreover from ci have "map_of (clientConnections st) k =
      (if from_ip k (clients st) = 0 then None else Some (int (from_ip k (clients st))))"
    by (simp add: counts_inv_def)
  ultimately show False by (simp split: if_splits)
qed

text \<open>
  Claim C1. After every sequence of events, from the initial state, the values of the
  per-origin count map sum to the number of active connections (the admitted sockets
  that have not closed), and no entry of the map has the value 0. Registration is the
  admitted branch of the connection handler (\<^verbatim>\<open>trackClientConnection\<close>), deregistration
  the 'close' listener (\<^verbatim>\<open>untrackClientConnection\<close>); since every prefix of a sequence
  is a sequence, this holds at every point.
\<close>

theorem C1_counts_match_active_connections:
  "sum_counts (clientConnections (run evs init_state)) =
     int (length (activeConnections (run evs init_state))) \<and>
   0 \<notin> snd ` set (clientConnections (run evs init_state))"
  using inv_run[OF inv_init, of evs] no_zero_count[of "run evs init_state"]
  by (simp add: state_inv_def counts_inv_def)

lemma one_timer: "length (timers (run evs init_state)) \<le> 1"
  using inv_run[OF inv_init, of evs] by (auto simp: state_inv_def timers_inv_def)

section \<open>Broadcast to the other clients\<close>

lemma recipients_sends: "recipients (map (\<lambda>c. WsSend (wid c) p) cs) = map wid cs"
  by (induction cs) (simp_all add: recipients_def)

text \<open>
  Claim C5. Broadcasting a payload for a sender with \<^verbatim>\<open>includeSelf\<close> false sends the
  payload, once each and in the order of \<^verbatim>\<open>wss.clients\<close>, to exactly the members of
  \<^verbatim>\<open>wss.clients\<close> that are open and are not the sender, and changes nothing else: every
  open socket other than the sender receives it, the sender does not, no socket that
  is not open does, and a socket that is skipped does not stop the loop.
\<close>

theorem C5_broadcast_excluding_sender:
  "broadcast ws p False st =
     emit (map (\<lambda>c. WsSend (wid c) p)
            (filter (\<lambda>c. wid c \<noteq> wid ws \<and> readyState c = OPEN) (clients st))) st \<and>
   set (recipients (io (broadcast ws p False (st\<lparr>io := []\<rparr>)))) =
     wid ` {c \<in> set (clients st). readyState c = OPEN \<and> wid c \<noteq> wid ws} \<and>
   wid ws \<notin> set (recipients (io (broadcast ws p False (st\<lparr>io := []\<rparr>))))"
  by (auto simp: broadcast_eq recipients_sends)

text \<open>The example of the specification: sender 0, open sockets 1, 2, 3 and a closing socket 4.\<close>

lemma broadcast_example:
  "io (broadcast \<lparr>wid = 0, readyState = OPEN, isAlive = Some True, clientIP = ''a'', listeners = True\<rparr>
        ''hello'' False
        (init_state\<lparr>clients :=
           [\<lparr>wid = 0, readyState = OPEN, isAlive = Some True, clientIP = ''a'', listeners = True\<rparr>,
            \<lparr>wid = 1, readyState = OPEN, isAlive = Some True, clientIP = ''b'', listeners = True\<rparr>,
            \<lparr>wid = 2, readyState = OPEN, isAlive = Some True, clientIP = ''c'', listeners = True\<rparr>,
            \<lparr>wid = 3, readyState = OPEN, isAlive = Some True, clientIP = ''d'', listeners = True\<rparr>,
            \<lparr>wid = 4, readyState = CLOSING, isAlive = Some True, clientIP = ''e'', listeners = True\<rparr>]\<rparr>)) =
   [WsSend 1 ''hello'', WsSend 2 ''hello'', WsSend 3 ''hello'']"
  by (simp add: broadcast_def send_def emit_def init_state_def)

section \<open>Admission\<close>

text \<open>The definitions to unfold when the model is evaluated on a concrete input.\<close>

lemmas model_defs = init_state_def valid_request_def invalid_request_def connect_def arrive_def
  on_connection_def authenticateClient_def MAX_TOTAL_CONNECTIONS_def MAX_CONNECTIONS_PER_IP_def
  get_or_0_def trackClientConnection_def untrackClientConnection_def emit_def update_ws_def
  remove_ws_def new_socket_def startHeartbeat_def heartbeat_tick_def on_message_def on_pong_def
  on_close_def on_error_def on_server_close_def clearInterval_def ws_close_def ws_terminate_def
  broadcast_def send_def outputs_def close_codes_def close_reasons_def recipients_def Let_def

lemma close_codes_append [simp]: "close_codes (xs @ ys) = close_codes xs @ close_codes ys"
  by (simp add: close_codes_def)

lemma close_reasons_append [simp]: "close_reasons (xs @ ys) = close_reasons xs @ close_reasons ys"
  by (simp add: close_reasons_def)

text \<open>The state after ten connections with a valid token from the origin \<open>x\<close>.\<close>

lemma ten_from_x:
  "run (ten_from ''x'') init_state =
   \<lparr>clients = map (\<lambda>i. \<lparr>wid = i, readyState = OPEN, isAlive = Some True, clientIP = ''x'', listeners = True\<rparr>) [0..<10],
    clientConnections = [(''x'', 10)], heartbeatInterval = Some 0, timers = [0],
    next_timer = 1, next_wid = 10,
    io = Log Info ''Connection opened'' # Log Info ''Starting heartbeat interval'' #
         replicate 9 (Log Info ''Connection opened'')\<rparr>"
  by (simp add: ten_from_def model_defs eval_nat_numeral)

text \<open>
  Claim C2, as amended. A rejected connection is closed with a numeric close code that
  depends on the reason: 1008 for a failed authentication, 1013 for the total limit and
  1008 for the per-IP limit. The code of the total limit differs from the other two;
  a failed authentication and the per-IP limit share the code 1008 and differ in the
  reason string only (\<^verbatim>\<open>Unauthorized\<close>, \<^verbatim>\<open>Too many connections\<close>).
\<close>

theorem C2_close_codes_by_reason:
  "fst (on_connection w req st) = Reject r \<Longrightarrow>
   close_codes (io (snd (on_connection w req st))) =
     close_codes (io st) @
     [case r of Unauthorized \<Rightarrow> 1008 | CapacityExceeded \<Rightarrow> 1013 | OriginCapacityExceeded \<Rightarrow> 1008] \<and>
   close_reasons (io (snd (on_connection w req st))) =
     close_reasons (io st) @
     [case r of Unauthorized \<Rightarrow> ''Unauthorized'' | CapacityExceeded \<Rightarrow> ''Server overloaded''
      | OriginCapacityExceeded \<Rightarrow> ''Too many connections'']"
  by (auto simp: on_connection_def Let_def close_codes_def close_reasons_def split: if_splits)

text \<open>
  The three codes are not pairwise different: a connection without a valid token and
  an eleventh connection from one origin are both closed with 1008.
\<close>

theorem C2_counterexample:
  "fst (connect (invalid_request ''x'') init_state) = Reject Unauthorized \<and>
   close_codes (outputs (Connection (invalid_request ''x'')) init_state) = [1008] \<and>
   fst (connect (valid_request ''x'') (run (ten_from ''x'') init_state)) = Reject OriginCapacityExceeded \<and>
   close_codes (outputs (Connection (valid_request ''x'')) (run (ten_from ''x'') init_state)) = [1008]"
  by (simp add: ten_from_x) (simp add: model_defs)

theorem C2_witness:
  "fst (on_connection 10 (valid_request ''x'') (arrive (valid_request ''x'') (run (ten_from ''x'') init_state))) =
     Reject OriginCapacityExceeded \<and>
   close_codes (io (snd (on_connection 10 (valid_request ''x'')
     (arrive (valid_request ''x'') (run (ten_from ''x'') init_state))))) = [1008] \<and>
   close_reasons (io (snd (on_connection 10 (valid_request ''x'')
     (arrive (valid_request ''x'') (run (ten_from ''x'') init_state))))) = [''Too many connections'']"
  using C2_close_codes_by_reason
    [of 10 "valid_request ''x''" "arrive (valid_request ''x'') (run (ten_from ''x'') init_state)"
        OriginCapacityExceeded]
  by (simp add: ten_from_x) (simp add: model_defs)

lemma length_admitted_sockets [simp]: "length (admitted_sockets n) = n"
  by (induction n) simp_all

lemma wid_admitted_sockets: "c \<in> set (admitted_sockets n) \<Longrightarrow> wid c < n"
  by (induction n) auto

lemma fresh_admitted_sockets: "n \<notin> wid ` set (admitted_sockets n)"
  using wid_admitted_sockets[of _ n] by auto

lemma active_admitted_sockets: "filter listeners (admitted_sockets n) = admitted_sockets n"
  by (induction n) simp_all





text \<open>
  The per-IP check, when the checks before it pass: with a valid token and
  \<^verbatim>\<open>wss.clients.size\<close>, as the handler reads it, below \<^verbatim>\<open>MAX_TOTAL_CONNECTIONS\<close>, the
  connection is rejected for the per-IP limit if the map holds
  \<^verbatim>\<open>MAX_CONNECTIONS_PER_IP\<close> (10) or more for the origin, and admitted otherwise.
\<close>

lemma per_origin_limit:
  assumes "authenticateClient req" and "int (length (clients st)) < MAX_TOTAL_CONNECTIONS"
  shows "fst (on_connection w req st) =
     (if MAX_CONNECTIONS_PER_IP \<le> get_or_0 (clientConnections st) (remoteAddress req)
      then Reject OriginCapacityExceeded else Accept)"
  using assms by (simp add: on_connection_def Let_def)

lemma per_origin_limit_example:
  "authenticateClient (valid_request ''x'') \<and>
   int (length (clients (arrive (valid_request ''x'') (run (ten_from ''x'') init_state)))) < MAX_TOTAL_CONNECTIONS \<and>
   get_or_0 (clientConnections (arrive (valid_request ''x'') (run (ten_from ''x'') init_state))) ''x'' =
     MAX_CONNECTIONS_PER_IP \<and>
   fst (on_connection 10 (valid_request ''x'') (arrive (valid_request ''x'') (run (ten_from ''x'') init_state))) =
     Reject OriginCapacityExceeded \<and>
   authenticateClient (valid_request ''y'') \<and>
   get_or_0 (clientConnections (arrive (valid_request ''y'') (run (ten_from ''x'') init_state))) ''y'' <
     MAX_CONNECTIONS_PER_IP \<and>
   fst (on_connection 10 (valid_request ''y'') (arrive (valid_request ''y'') (run (ten_from ''x'') init_state))) =
     Accept"
  using per_origin_limit
    [of "valid_request ''x''" "arrive (valid_request ''x'') (run (ten_from ''x'') init_state)" 10]
    per_origin_limit
    [of "valid_request ''y''" "arrive (valid_request ''y'') (run (ten_from ''x'') init_state)" 10]
  by (simp add: ten_from_x) (simp add: model_defs)

text \<open>
  The handler reads \<^verbatim>\<open>wss.clients.size\<close> after the library has added the connecting
  socket, so the total check already rejects when 999 other sockets are connected.
\<close>

lemma total_counts_connecting_socket:
  "authenticateClient req \<Longrightarrow> int (length (clients st)) + 1 = MAX_TOTAL_CONNECTIONS \<Longrightarrow>
   fst (connect req st) = Reject CapacityExceeded"
  by (simp add: connect_def arrive_def on_connection_def)

text \<open>
  The state after 999 connections with a valid token, ten from each origin in turn
  (nine from the last): all are admitted, and the per-IP map counts, for each origin, the connections made from it.
\<close>

lemma get_or_0_track:
  "get_or_0 (trackClientConnection ip m) ip' = get_or_0 m ip' + (if ip' = ip then 1 else 0)"
  by (simp add: get_or_0_eq map_of_track)

lemma origin_of_eq: "origin_of i = origin_of j \<longleftrightarrow> i div 10 = j div 10"
  by (simp add: origin_of_def)

lemma get_or_0_origin_counts:
  "get_or_0 (origin_counts n) ip = int (card {i. i < n \<and> origin_of i = ip})"
proof (induction n)
  case 0
  then show ?case by (simp add: get_or_0_def)
next
  case (Suc n)
  have s: "{i. i < Suc n \<and> origin_of i = ip} =
      (if origin_of n = ip then insert n {i. i < n \<and> origin_of i = ip}
       else {i. i < n \<and> origin_of i = ip})"
    by (auto simp: less_Suc_eq)
  show ?case
    by (simp add: get_or_0_track Suc.IH s)
qed

lemma same_origin_before: "card {i. i < n \<and> origin_of i = origin_of n} = n mod 10"
proof -
  have "{i. i < n \<and> origin_of i = origin_of n} = {10 * (n div 10)..<n}"
    by (auto simp: origin_of_eq)
  then show ?thesis by (simp add: minus_mult_div_eq_mod)
qed

lemma count_next_origin: "get_or_0 (origin_counts n) (origin_of n) < MAX_CONNECTIONS_PER_IP"
  by (simp add: get_or_0_origin_counts same_origin_before MAX_CONNECTIONS_PER_IP_def)

lemma connect_busy:
  assumes "0 < m" and "m < 999"
  shows "step (Connection (valid_request (origin_of m))) ((busy_state m)\<lparr>io := l\<rparr>) =
         (busy_state (Suc m))\<lparr>io := l @ [Log Info ''Connection opened'']\<rparr>"
proof -
  have a: "authenticateClient (valid_request (origin_of m))"
    by (simp add: authenticateClient_def valid_request_def)
  have r: "remoteAddress (valid_request (origin_of m)) = origin_of m"
    by (simp add: valid_request_def)
  have n: "new_socket m (valid_request (origin_of m))\<lparr>isAlive := Some True, listeners := True\<rparr> =
      \<lparr>wid = m, readyState = OPEN, isAlive = Some True, clientIP = origin_of m, listeners = True\<rparr>"
    by (simp add: new_socket_def valid_request_def)
  show ?thesis
    using assms count_next_origin[of m] fresh_admitted_sockets[of m]
    by (simp add: connect_def arrive_def on_connection_def a r n busy_state_def emit_def
        MAX_TOTAL_CONNECTIONS_def update_ws_fresh Let_def)
qed

lemma run_snoc: "run (evs @ [e]) st = step e (run evs st)"
  by (induction evs arbitrary: st) simp_all

lemma conns_Suc: "conns (Suc n) = conns n @ [Connection (valid_request (origin_of n))]"
  by (simp add: conns_def)

lemma run_conns:
  "n < 999 \<Longrightarrow>
   run (conns (Suc n)) init_state =
   (busy_state (Suc n))\<lparr>io := Log Info ''Connection opened'' # Log Info ''Starting heartbeat interval'' #
      replicate n (Log Info ''Connection opened'')\<rparr>"
proof (induction n)
  case 0
  show ?case
    by (simp add: conns_def busy_state_def origin_of_def model_defs)
next
  case (Suc n)
  then have "n < 999" and "0 < Suc n" and "Suc n < 999" by simp_all
  with Suc.IH show ?case
    by (simp only: conns_Suc[of "Suc n"] run_snoc connect_busy) (simp add: replicate_append_same)
qed

lemma ten_from_first_origin: "card {i. i < 999 \<and> origin_of i = ''a''} = 10"
proof -
  have "''a'' = origin_of 0" by (simp add: origin_of_def)
  then have "{i. i < 999 \<and> origin_of i = ''a''} = {0..<10}"
    by (auto simp: origin_of_eq)
  then show ?thesis by simp
qed

lemma none_from_other_origin: "{i. i < n \<and> origin_of i = ''b''} = {}"
  by (simp add: origin_of_def)

text \<open>
  Claim C8. The claim: with a valid token and the total of active connections below
  the maximum, a connection from an origin with ten active connections is rejected for
  the per-IP limit, and one from an origin with fewer is admitted. The code, evaluated
  after 999 admitted connections (999 active, below 1000): a connection from the origin
  \<open>a\<close>, which has ten, and a connection from the origin \<open>b\<close>, which has none, are both
  rejected for total capacity, since \<^verbatim>\<open>wss.clients.size\<close> already counts the connecting
  socket.
\<close>

theorem C8_total_limit_counts_connecting_socket:
  "length (activeConnections (run (conns 999) init_state)) = 999 \<and>
   length (clients (run (conns 999) init_state)) = 999 \<and>
   get_or_0 (clientConnections (run (conns 999) init_state)) ''a'' = 10 \<and>
   fst (connect (valid_request ''a'') (run (conns 999) init_state)) = Reject CapacityExceeded \<and>
   get_or_0 (clientConnections (run (conns 999) init_state)) ''b'' = 0 \<and>
   fst (connect (valid_request ''b'') (run (conns 999) init_state)) = Reject CapacityExceeded"
proof -
  have r: "run (conns (Suc 998)) init_state =
      (busy_state (Suc 998))\<lparr>io := Log Info ''Connection opened'' # Log Info ''Starting heartbeat interval'' #
        replicate 998 (Log Info ''Connection opened'')\<rparr>"
    by (rule run_conns) simp
  have s: "Suc 998 = 999" by simp
  have a: "authenticateClient (valid_request ip)" for ip
    by (simp add: authenticateClient_def valid_request_def)
  have c: "fst (connect (valid_request ip) (run (conns 999) init_state)) = Reject CapacityExceeded" for ip
    using r unfolding s
    by (simp add: connect_def arrive_def on_connection_def a busy_state_def MAX_TOTAL_CONNECTIONS_def Let_def)
  have l: "length (activeConnections (run (conns 999) init_state)) = 999"
    using r unfolding s
    by (simp add: activeConnections_def busy_state_def active_admitted_sockets)
  have m: "clientConnections (run (conns 999) init_state) = origin_counts 999"
    using r unfolding s by (simp add: busy_state_def)
  have k: "length (clients (run (conns 999) init_state)) = 999"
    using r unfolding s by (simp add: busy_state_def)
  show ?thesis
    by (simp add: c l k m get_or_0_origin_counts ten_from_first_origin none_from_other_origin)
qed

section \<open>Heartbeat ticks\<close>

lemma find_ws_update_ws:
  "find_ws w (update_ws w' f cs) =
     (case find_ws w cs of None \<Rightarrow> None | Some c \<Rightarrow> Some (if w' = w then f c else c))"
  if "\<And>c. wid (f c) = wid c"
  using that by (induction cs) (simp_all add: update_ws_def)

lemma find_ws_remove_ws:
  "find_ws w (remove_ws w' cs) = (if w' = w then None else find_ws w cs)"
  by (induction cs) (auto simp: remove_ws_def)

lemma find_ws_append:
  "find_ws w (cs @ ds) = (case find_ws w cs of None \<Rightarrow> find_ws w ds | Some c \<Rightarrow> Some c)"
  by (induction cs) simp_all

lemma find_ws_None: "find_ws w cs = None \<longleftrightarrow> w \<notin> wid ` set cs"
  by (induction cs) auto

lemma find_ws_Some: "find_ws w cs = Some c \<Longrightarrow> c \<in> set cs \<and> wid c = w"
  by (induction cs) (auto split: if_splits)

lemma find_ws_unique:
  "distinct (map wid cs) \<Longrightarrow> find_ws w cs = Some c \<Longrightarrow> c' \<in> set cs \<Longrightarrow> wid c' = w \<Longrightarrow> c' = c"
  by (induction cs) (auto split: if_splits)

lemma wid_ws_terminate [simp]: "wid (ws_terminate c) = wid c"
  by (simp add: ws_terminate_def)

lemma isAlive_ws_terminate [simp]: "isAlive (ws_terminate c) = isAlive c"
  by (simp add: ws_terminate_def)

lemma listeners_ws_terminate [simp]: "listeners (ws_terminate c) = listeners c"
  by (simp add: ws_terminate_def)

lemma wid_ws_close [simp]: "wid (ws_close c) = wid c"
  by (simp add: ws_close_def)

lemma isAlive_ws_close [simp]: "isAlive (ws_close c) = isAlive c"
  by (simp add: ws_close_def)

lemma listeners_ws_close [simp]: "listeners (ws_close c) = listeners c"
  by (simp add: ws_close_def)

lemma find_ws_heartbeat_each:
  "find_ws w (fst (heartbeat_each cs)) =
     (case find_ws w cs of None \<Rightarrow> None
      | Some c \<Rightarrow> Some (if isAlive c = Some False then ws_terminate c else c\<lparr>isAlive := Some False\<rparr>))"
  by (induction cs) (simp_all add: split_beta Let_def)

lemma terminate_heartbeat_each:
  "WsTerminate w \<in> set (snd (heartbeat_each cs)) \<longleftrightarrow>
     (\<exists>c \<in> set cs. wid c = w \<and> isAlive c = Some False)"
  by (induction cs) (auto simp: split_beta Let_def)

lemma ping_heartbeat_each:
  "WsPing w \<in> set (snd (heartbeat_each cs)) \<longleftrightarrow>
     (\<exists>c \<in> set cs. wid c = w \<and> isAlive c \<noteq> Some False \<and> readyState c = OPEN)"
  by (induction cs) (auto simp: split_beta Let_def)

lemma outputs_tick:
  "timers st \<noteq> [] \<Longrightarrow> outputs Tick st = snd (heartbeat_each (clients st))"
  by (simp add: outputs_def)

lemma ex_socket:
  assumes "distinct (map wid cs)" and "find_ws w cs = Some c"
  shows "(\<exists>c' \<in> set cs. wid c' = w \<and> P c') \<longleftrightarrow> P c"
proof
  assume "\<exists>c' \<in> set cs. wid c' = w \<and> P c'"
  then obtain c' where "c' \<in> set cs" "wid c' = w" "P c'" by blast
  with find_ws_unique[OF assms] show "P c" by blast
next
  assume "P c"
  with find_ws_Some[OF assms(2)] show "\<exists>c' \<in> set cs. wid c' = w \<and> P c'" by blast
qed

lemma tick_terminates:
  "timers st \<noteq> [] \<Longrightarrow> distinct (map wid (clients st)) \<Longrightarrow> find_ws w (clients st) = Some c \<Longrightarrow>
   WsTerminate w \<in> set (outputs Tick st) \<longleftrightarrow> isAlive c = Some False"
  using ex_socket[of "clients st" w c "\<lambda>c. isAlive c = Some False"]
  by (simp add: outputs_tick terminate_heartbeat_each)

lemma tick_pings:
  "timers st \<noteq> [] \<Longrightarrow> distinct (map wid (clients st)) \<Longrightarrow> find_ws w (clients st) = Some c \<Longrightarrow>
   WsPing w \<in> set (outputs Tick st) \<longleftrightarrow> isAlive c \<noteq> Some False \<and> readyState c = OPEN"
  using ex_socket[of "clients st" w c "\<lambda>c. isAlive c \<noteq> Some False \<and> readyState c = OPEN"]
  by (simp add: outputs_tick ping_heartbeat_each)

lemma tick_socket:
  "timers st \<noteq> [] \<Longrightarrow> find_ws w (clients st) = Some c \<Longrightarrow>
   find_ws w (clients (step Tick st)) =
     Some (if isAlive c = Some False then ws_terminate c else c\<lparr>isAlive := Some False\<rparr>)"
  by (simp add: find_ws_heartbeat_each)

lemma wf_step: "wf_state st \<Longrightarrow> wf_state (step e st)"
proof (cases e)
  case (Connection req)
  assume "wf_state st"
  with Connection show ?thesis by (simp add: wf_connect)
next
  case (Close w)
  assume wf: "wf_state st"
  have "wf_state (on_close ip (st\<lparr>clients := remove_ws w (clients st)\<rparr>))" for ip
    using wf_remove[OF wf, of w] by (simp add: wf_state_def)
  with Close wf wf_remove[OF wf, of w] show ?thesis by (simp add: Let_def split: option.splits)
next
  case (Message w d)
  assume "wf_state st"
  then show ?thesis unfolding Message
    by (rule wf_state_same[rotated -1]) (simp_all add: on_message_def broadcast_eq split: option.splits)
next
  case (Pong w)
  assume "wf_state st"
  then show ?thesis unfolding Pong
    by (rule wf_state_same[rotated -1]) (simp_all add: on_pong_def ident_update_ws split: option.splits)
next
  case (SocketError w)
  assume "wf_state st"
  then show ?thesis unfolding SocketError
    by (rule wf_state_same[rotated -1]) (simp_all add: on_error_def split: option.splits)
next
  case (Closing w)
  assume "wf_state st"
  then show ?thesis unfolding Closing
    by (rule wf_state_same[rotated -1]) (simp_all add: ident_update_ws)
next
  case Tick
  assume "wf_state st"
  then show ?thesis unfolding Tick
    by (rule wf_state_same[rotated -1]) (simp_all add: ident_heartbeat_each)
next
  case ServerClose
  assume "wf_state st"
  then show ?thesis unfolding ServerClose
    by (rule wf_state_same[rotated -1]) (simp_all add: on_server_close_def)
qed

lemma wf_run: "wf_state st \<Longrightarrow> wf_state (run evs st)"
  by (induction evs arbitrary: st) (simp_all add: wf_step)


lemma connect_timers_kept: "timers s \<noteq> [] \<Longrightarrow> timers (snd (connect req s)) \<noteq> []"
  by (simp add: connect_def arrive_def on_connection_def Let_def startHeartbeat_def)

lemma on_close_timers_kept: "clients s \<noteq> [] \<Longrightarrow> timers (on_close ip s) = timers s"
  by (simp add: on_close_def Let_def)

lemma find_ws_nonempty: "find_ws w cs = Some c \<Longrightarrow> cs \<noteq> []"
  by (cases cs) simp_all

lemma unanswered_step:
  assumes u: "unanswered w s" and e: "e \<noteq> Pong w" "e \<noteq> Close w" "e \<noteq> ServerClose"
  shows "unanswered w (step e s)"
proof -
  from u obtain c where wf: "wf_state s" and t: "timers s \<noteq> []"
    and f: "find_ws w (clients s) = Some c" and a: "isAlive c = Some False"
    by (auto simp: unanswered_def)
  have wf': "wf_state (step e s)" using wf by (rule wf_step)
  have "timers (step e s) \<noteq> [] \<and> (\<exists>c'. find_ws w (clients (step e s)) = Some c' \<and> isAlive c' = Some False)"
  proof (cases e)
    case (Connection req)
    with t f a show ?thesis
      by (simp add: connect_timers_kept connect_clients[OF wf] find_ws_append)
  next
    case (Message w' d)
    with t f a show ?thesis
      by (simp add: on_message_def broadcast_eq split: option.splits)
  next
    case (Pong w')
    with e have "w' \<noteq> w" by simp
    with Pong t f a show ?thesis
      by (simp add: on_pong_def find_ws_update_ws split: option.splits)
  next
    case (SocketError w')
    with t f a show ?thesis
      by (simp add: on_error_def split: option.splits)
  next
    case (Closing w')
    with t f a show ?thesis
      by (simp add: find_ws_update_ws)
  next
    case (Close w')
    with e have n: "w' \<noteq> w" by simp
    have f': "find_ws w (remove_ws w' (clients s)) = Some c"
      using n f by (simp add: find_ws_remove_ws)
    then have "remove_ws w' (clients s) \<noteq> []" by (rule find_ws_nonempty)
    with Close t f f' a show ?thesis
      by (simp add: Let_def on_close_timers_kept split: option.splits)
  next
    case Tick
    with t f a show ?thesis
      by (simp add: find_ws_heartbeat_each)
  next
    case ServerClose
    with e show ?thesis by simp
  qed
  with wf' show ?thesis by (simp add: unanswered_def)
qed

lemma quiet_Cons: "quiet w (e # evs) \<Longrightarrow> e \<noteq> Pong w \<and> e \<noteq> Close w \<and> e \<noteq> ServerClose \<and> quiet w evs"
  by (cases e) auto

lemma unanswered_run: "unanswered w s \<Longrightarrow> quiet w evs \<Longrightarrow> unanswered w (run evs s)"
proof (induction evs arbitrary: s)
  case Nil
  then show ?case by simp
next
  case (Cons e evs)
  from quiet_Cons[OF Cons.prems(2)] Cons.prems(1) have "unanswered w (step e s)" and "quiet w evs"
    by (simp_all add: unanswered_step)
  then show ?case by (simp add: Cons.IH)
qed

lemma unanswered_tick:
  "wf_state s \<Longrightarrow> timers s \<noteq> [] \<Longrightarrow> find_ws w (clients s) = Some c \<Longrightarrow> unanswered w (step Tick s)"
  using wf_step[of s Tick] by (simp add: unanswered_def find_ws_heartbeat_each)

lemma two_ticks:
  assumes "wf_state s" "timers s \<noteq> []" "find_ws w (clients s) = Some c" "quiet w evs"
  shows "WsTerminate w \<in> set (outputs Tick (run (Tick # evs) s))"
proof -
  have "unanswered w (step Tick s)"
    by (rule unanswered_tick[OF assms(1-3)])
  then have "unanswered w (run evs (step Tick s))"
    using assms(4) by (rule unanswered_run)
  then obtain c' where "wf_state (run evs (step Tick s))" "timers (run evs (step Tick s)) \<noteq> []"
    "find_ws w (clients (run evs (step Tick s))) = Some c'" "isAlive c' = Some False"
    by (auto simp: unanswered_def)
  then show ?thesis
    using tick_terminates[of "run evs (step Tick s)" w c'] by (simp add: wf_state_def)
qed


lemma io_step: "io (step e s) = io s @ outputs e s"
proof (cases e)
  case (Connection req)
  then show ?thesis
    by (simp add: outputs_def connect_def arrive_def on_connection_def Let_def startHeartbeat_def)
next
  case (Message w d)
  then show ?thesis
    by (simp add: outputs_def on_message_def broadcast_eq split: option.splits)
next
  case (Pong w)
  then show ?thesis by (simp add: outputs_def on_pong_def split: option.splits)
next
  case (SocketError w)
  then show ?thesis by (simp add: outputs_def on_error_def split: option.splits)
next
  case (Closing w)
  then show ?thesis by (simp add: outputs_def)
next
  case (Close w)
  then show ?thesis by (auto simp: outputs_def on_close_def Let_def split: option.splits)
next
  case Tick
  then show ?thesis by (simp add: outputs_def)
next
  case ServerClose
  then show ?thesis by (simp add: outputs_def on_server_close_def)
qed

lemma only_tick_terminates: "e \<noteq> Tick \<Longrightarrow> WsTerminate w \<notin> set (outputs e s)"
proof (cases e)
  case (Connection req)
  then show ?thesis
    by (simp add: outputs_def connect_def arrive_def on_connection_def Let_def startHeartbeat_def)
next
  case (Message w' d)
  then show ?thesis
    by (auto simp: outputs_def on_message_def broadcast_eq split: option.splits)
next
  case (Pong w')
  then show ?thesis by (simp add: outputs_def on_pong_def split: option.splits)
next
  case (SocketError w')
  then show ?thesis by (simp add: outputs_def on_error_def split: option.splits)
next
  case (Closing w')
  then show ?thesis by (simp add: outputs_def)
next
  case (Close w')
  then show ?thesis by (auto simp: outputs_def on_close_def Let_def split: option.splits)
next
  case Tick
  assume "e \<noteq> Tick"
  with Tick show ?thesis by simp
next
  case ServerClose
  then show ?thesis by (simp add: outputs_def on_server_close_def)
qed

lemma responsive_step:
  assumes r: "responsive w alive s" and e: "e \<noteq> Tick"
  shows "responsive w (alive \<or> e = Pong w) (step e s)"
proof -
  from r have wf: "wf_state s" and lt: "w < next_wid s"
    and c: "case find_ws w (clients s) of None \<Rightarrow> True
            | Some c \<Rightarrow> listeners c \<and> (alive \<longrightarrow> isAlive c = Some True)"
    by (simp_all add: responsive_def)
  have wf': "wf_state (step e s)" using wf by (rule wf_step)
  have "w < next_wid (step e s) \<and>
    (case find_ws w (clients (step e s)) of None \<Rightarrow> True
     | Some c \<Rightarrow> listeners c \<and> (alive \<or> e = Pong w \<longrightarrow> isAlive c = Some True))"
  proof (cases e)
    case (Connection req)
    have "find_ws w [x] = None" if "wid x = next_wid s" for x
      using that lt by simp
    then have "find_ws w (clients (snd (connect req s))) = find_ws w (clients s)"
      by (simp add: connect_clients[OF wf] find_ws_append admitted_def split: option.splits)
    with Connection lt c show ?thesis
      by (simp add: connect_next_wid split: option.splits)
  next
    case (Message w' d)
    with lt c show ?thesis
      by (simp add: on_message_def broadcast_eq split: option.splits)
  next
    case (Pong w')
    with lt c show ?thesis
      by (auto simp: on_pong_def find_ws_update_ws split: option.splits)
  next
    case (SocketError w')
    with lt c show ?thesis
      by (simp add: on_error_def split: option.splits)
  next
    case (Closing w')
    with lt c show ?thesis
      by (simp add: find_ws_update_ws split: option.splits)
  next
    case (Close w')
    with lt c show ?thesis
      by (simp add: Let_def find_ws_remove_ws split: option.splits)
  next
    case Tick
    with e show ?thesis by simp
  next
    case ServerClose
    with lt c show ?thesis
      by (simp add: on_server_close_def split: option.splits)
  qed
  with wf' show ?thesis by (simp add: responsive_def)
qed

lemma responsive_tick:
  assumes r: "responsive w True s"
  shows "responsive w False (step Tick s)" and "WsTerminate w \<notin> set (outputs Tick s)"
proof -
  from r have wf: "wf_state s" and lt: "w < next_wid s"
    and c: "case find_ws w (clients s) of None \<Rightarrow> True
            | Some c \<Rightarrow> listeners c \<and> isAlive c = Some True"
    by (simp_all add: responsive_def split: option.splits)
  have wf': "wf_state (step Tick s)" using wf by (rule wf_step)
  from lt c wf' show "responsive w False (step Tick s)"
    by (simp add: responsive_def find_ws_heartbeat_each split: option.splits)
  show "WsTerminate w \<notin> set (outputs Tick s)"
  proof (cases "timers s = []")
    case True
    then show ?thesis by (simp add: outputs_def)
  next
    case False
    show ?thesis
    proof (cases "find_ws w (clients s)")
      case None
      then have "w \<notin> wid ` set (clients s)" by (simp add: find_ws_None)
      then show ?thesis
        by (auto simp: outputs_tick[OF False] terminate_heartbeat_each)
    next
      case (Some c')
      with c have "isAlive c' = Some True" by simp
      moreover from wf have "distinct (map wid (clients s))" by (simp add: wf_state_def)
      ultimately show ?thesis
        using tick_terminates[OF False _ Some] by simp
    qed
  qed
qed

lemma responsive_weaken: "responsive w True s \<Longrightarrow> responsive w alive s"
  by (simp add: responsive_def split: option.splits)

lemma never_evicted:
  "responsive w alive s \<Longrightarrow> answers w alive evs \<Longrightarrow> WsTerminate w \<notin> set (io s) \<Longrightarrow>
   WsTerminate w \<notin> set (io (run evs s))"
proof (induction evs arbitrary: s alive)
  case Nil
  then show ?case by simp
next
  case (Cons e evs)
  show ?case
  proof (cases "e = Tick")
    case True
    with Cons.prems have al: alive and an: "answers w False evs" by simp_all
    from al Cons.prems(1) have r: "responsive w True s" by simp
    have "WsTerminate w \<notin> set (io (step Tick s))"
      using Cons.prems(3) responsive_tick(2)[OF r] by (simp only: io_step set_append Un_iff) simp
    with Cons.IH[OF responsive_tick(1)[OF r] an] True show ?thesis by simp
  next
    case False
    have n: "WsTerminate w \<notin> set (io (step e s))"
      using Cons.prems(3) only_tick_terminates[OF False, of w s]
      by (simp only: io_step set_append Un_iff) simp
    have an: "answers w (alive \<or> e = Pong w) evs"
      using False Cons.prems(2) by (cases e) (auto simp: disj_commute)
    from Cons.IH[OF responsive_step[OF Cons.prems(1) False] an n] show ?thesis by simp
  qed
qed

section \<open>The message listener\<close>

text \<open>
  Claim C4, as amended. For a text message whose payload is exactly \<^verbatim>\<open>pong\<close>, received
  on an admitted socket, the message listener only writes a debug line: no socket
  changes (so the liveness flag of the connection stays as it was) and the payload is
  not passed to \<^verbatim>\<open>broadcast\<close>. Every other payload is handed to \<^verbatim>\<open>broadcast\<close> with the
  sender excluded. A pong control frame does set the flag of its socket to true.
\<close>

theorem C4_text_pong_is_only_suppressed:
  assumes "find_ws w (clients st) = Some ws" and "listeners ws"
  shows "step (Message w ''pong'') st = emit [Log Debug ''Heartbeat pong received''] st \<and>
         clients (step (Message w ''pong'') st) = clients st \<and>
         recipients (outputs (Message w ''pong'') st) = [] \<and>
         (payload \<noteq> ''pong'' \<longrightarrow> step (Message w payload) st = broadcast ws payload False st) \<and>
         map_option isAlive (find_ws w (clients (step (Pong w) st))) = Some (Some True)"
  using assms
  by (simp add: on_message_def outputs_def emit_def recipients_def on_pong_def find_ws_update_ws)

text \<open>Two admitted sockets after one heartbeat tick.\<close>

lemma probed_state:
  "run [Connection (valid_request ''a''), Connection (valid_request ''b''), Tick] init_state =
   \<lparr>clients =
      [\<lparr>wid = 0, readyState = OPEN, isAlive = Some False, clientIP = ''a'', listeners = True\<rparr>,
       \<lparr>wid = 1, readyState = OPEN, isAlive = Some False, clientIP = ''b'', listeners = True\<rparr>],
    clientConnections = [(''a'', 1), (''b'', 1)], heartbeatInterval = Some 0, timers = [0],
    next_timer = 1, next_wid = 2,
    io = [Log Info ''Connection opened'', Log Info ''Starting heartbeat interval'',
          Log Info ''Connection opened'', WsPing 0, WsPing 1]\<rparr>"
  by (simp add: model_defs)

theorem C4_witness:
  "find_ws 0 (clients (run [Connection (valid_request ''a''), Connection (valid_request ''b''), Tick] init_state)) =
     Some \<lparr>wid = 0, readyState = OPEN, isAlive = Some False, clientIP = ''a'', listeners = True\<rparr> \<and>
   recipients (outputs (Message 0 ''pong'')
     (run [Connection (valid_request ''a''), Connection (valid_request ''b''), Tick] init_state)) = [] \<and>
   ''hi'' \<noteq> ''pong'' \<and>
   outputs (Message 0 ''hi'')
     (run [Connection (valid_request ''a''), Connection (valid_request ''b''), Tick] init_state) =
     [WsSend 1 ''hi''] \<and>
   map_option isAlive (find_ws 0 (clients (step (Pong 0)
     (run [Connection (valid_request ''a''), Connection (valid_request ''b''), Tick] init_state)))) =
     Some (Some True)"
  using C4_text_pong_is_only_suppressed
    [of 0 "run [Connection (valid_request ''a''), Connection (valid_request ''b''), Tick] init_state"
        "\<lparr>wid = 0, readyState = OPEN, isAlive = Some False, clientIP = ''a'', listeners = True\<rparr>" "''hi''"]
  by (simp add: probed_state) (simp add: model_defs)

text \<open>
  The claim as stated fails: after a tick the flag of socket 0 is false, and it is still
  false after the text message \<^verbatim>\<open>pong\<close> from that socket.
\<close>

theorem C4_counterexample:
  "map (\<lambda>c. (wid c, readyState c, listeners c, isAlive c))
     (clients (run [Connection (valid_request ''a''), Tick] init_state)) =
     [(0, OPEN, True, Some False)] \<and>
   map (\<lambda>c. (wid c, readyState c, listeners c, isAlive c))
     (clients (run [Connection (valid_request ''a''), Tick, Message 0 ''pong''] init_state)) =
     [(0, OPEN, True, Some False)]"
  by (simp add: init_state_def valid_request_def connect_def arrive_def on_connection_def
      authenticateClient_def MAX_TOTAL_CONNECTIONS_def MAX_CONNECTIONS_PER_IP_def get_or_0_def
      trackClientConnection_def emit_def update_ws_def new_socket_def startHeartbeat_def
      heartbeat_tick_def on_message_def)

text \<open>
  For a socket that is already in \<^verbatim>\<open>wss.clients\<close>, no event other than its own pong
  control frame turns the flag to true (the connection handler sets it when it admits
  the socket).
\<close>

lemma only_pong_sets_flag:
  assumes wf: "wf_state st" and f: "find_ws w (clients st) = Some c" and e: "e \<noteq> Pong w"
    and f': "find_ws w (clients (step e st)) = Some c'" and a: "isAlive c' = Some True"
  shows "isAlive c = Some True"
proof (cases e)
  case (Connection req)
  with f f' a show ?thesis
    by (simp add: connect_clients[OF wf] find_ws_append)
next
  case (Message w' d)
  with f f' a show ?thesis
    by (simp add: on_message_def broadcast_eq split: option.splits if_splits)
next
  case (Pong w')
  with e have "w' \<noteq> w" by simp
  with Pong f f' a show ?thesis
    by (simp add: on_pong_def find_ws_update_ws split: option.splits if_splits)
next
  case (SocketError w')
  with f f' a show ?thesis
    by (simp add: on_error_def split: option.splits if_splits)
next
  case (Closing w')
  with f f' a show ?thesis
    by (auto simp: find_ws_update_ws split: if_splits)
next
  case (Close w')
  with f f' a show ?thesis
    by (auto simp: Let_def find_ws_remove_ws split: option.splits if_splits)
next
  case Tick
  with f f' a show ?thesis
    by (auto simp: find_ws_heartbeat_each split: if_splits)
next
  case ServerClose
  with f f' a show ?thesis
    by (simp add: on_server_close_def)
qed

section \<open>Heartbeat: probing and eviction\<close>

lemma wf_lt: "wf_state s \<Longrightarrow> find_ws w (clients s) = Some c \<Longrightarrow> w < next_wid s"
  using find_ws_Some[of w "clients s" c] by (auto simp: wf_state_def list_all_iff)

lemma close_after_tick:
  assumes "timers s \<noteq> []" and "find_ws w (clients s) = Some c"
  shows "find_ws w (clients (step (Close w) (step Tick s))) = None"
    and "listeners c \<Longrightarrow> clientConnections (step (Close w) (step Tick s)) =
           untrackClientConnection (clientIP c) (clientConnections s)"
  using assms
  by (simp_all add: find_ws_heartbeat_each find_ws_remove_ws Let_def ws_terminate_def split: option.splits)

text \<open>
  Claim C6, as amended. On a heartbeat tick, for every socket in \<^verbatim>\<open>wss.clients\<close>: if its
  flag is false, it is terminated (and the 'close' event that follows removes it and,
  for an admitted socket, decrements the count of its origin); otherwise its flag is set
  to false, and a ping is sent if and only if the socket is open. So a socket that
  sends no pong frame and stays connected between two ticks is terminated at the second
  one, and an admitted socket whose pong frame arrives before every tick is never
  terminated.
\<close>

theorem C6_heartbeat_tick_and_eviction:
  assumes "wf_state s" and "timers s \<noteq> []" and "find_ws w (clients s) = Some c"
  shows "(isAlive c = Some False \<longrightarrow>
            WsTerminate w \<in> set (outputs Tick s) \<and>
            find_ws w (clients (step (Close w) (step Tick s))) = None \<and>
            (listeners c \<longrightarrow> clientConnections (step (Close w) (step Tick s)) =
               untrackClientConnection (clientIP c) (clientConnections s))) \<and>
         (isAlive c \<noteq> Some False \<longrightarrow>
            WsTerminate w \<notin> set (outputs Tick s) \<and>
            map_option isAlive (find_ws w (clients (step Tick s))) = Some (Some False) \<and>
            (WsPing w \<in> set (outputs Tick s) \<longleftrightarrow> readyState c = OPEN)) \<and>
         (quiet w evs \<longrightarrow> WsTerminate w \<in> set (outputs Tick (run (Tick # evs) s))) \<and>
         (listeners c \<and> answers w (isAlive c = Some True) evs' \<and> WsTerminate w \<notin> set (io s) \<longrightarrow>
            WsTerminate w \<notin> set (io (run evs' s)))"
proof (intro conjI impI)
  have d: "distinct (map wid (clients s))" using assms(1) by (simp add: wf_state_def)
  note t = tick_terminates[OF assms(2) d assms(3)]
  note p = tick_pings[OF assms(2) d assms(3)]
  note k = tick_socket[OF assms(2,3)]
  show "WsTerminate w \<in> set (outputs Tick s)" if "isAlive c = Some False"
    using that t by simp
  show "find_ws w (clients (step (Close w) (step Tick s))) = None"
    by (rule close_after_tick(1)[OF assms(2,3)])
  show "clientConnections (step (Close w) (step Tick s)) =
      untrackClientConnection (clientIP c) (clientConnections s)" if "listeners c"
    using that by (rule close_after_tick(2)[OF assms(2,3)])
  show "WsTerminate w \<notin> set (outputs Tick s)" if "isAlive c \<noteq> Some False"
    using that t by simp
  show "map_option isAlive (find_ws w (clients (step Tick s))) = Some (Some False)"
    if "isAlive c \<noteq> Some False"
    using that by (simp only: k) simp
  show "WsPing w \<in> set (outputs Tick s) \<longleftrightarrow> readyState c = OPEN" if "isAlive c \<noteq> Some False"
    using that p by simp
  show "WsTerminate w \<in> set (outputs Tick (run (Tick # evs) s))" if "quiet w evs"
    using assms that by (rule two_ticks)
  show "WsTerminate w \<notin> set (io (run evs' s))"
    if h: "listeners c \<and> answers w (isAlive c = Some True) evs' \<and> WsTerminate w \<notin> set (io s)"
  proof -
    have "responsive w (isAlive c = Some True) s"
      using assms(1,3) h wf_lt[OF assms(1,3)] by (simp add: responsive_def)
    with h show ?thesis by (simp add: never_evicted)
  qed
qed

text \<open>
  The claim as stated fails for a socket that is not open: socket 0, admitted and then
  closing, has its flag set, and the tick clears the flag without sending a ping.
\<close>

lemma closing_state:
  "run [Connection (valid_request ''a''), Closing 0] init_state =
   \<lparr>clients =
      [\<lparr>wid = 0, readyState = CLOSING, isAlive = Some True, clientIP = ''a'', listeners = True\<rparr>],
    clientConnections = [(''a'', 1)], heartbeatInterval = Some 0, timers = [0],
    next_timer = 1, next_wid = 1,
    io = [Log Info ''Connection opened'', Log Info ''Starting heartbeat interval'']\<rparr>"
  by (simp add: model_defs)

theorem C6_counterexample:
  "map (\<lambda>c. (wid c, readyState c, isAlive c))
     (clients (run [Connection (valid_request ''a''), Closing 0] init_state)) =
     [(0, CLOSING, Some True)] \<and>
   timers (run [Connection (valid_request ''a''), Closing 0] init_state) = [0] \<and>
   outputs Tick (run [Connection (valid_request ''a''), Closing 0] init_state) = [] \<and>
   map (\<lambda>c. (wid c, readyState c, isAlive c))
     (clients (step Tick (run [Connection (valid_request ''a''), Closing 0] init_state))) =
     [(0, CLOSING, Some False)]"
  by (simp add: closing_state) (simp add: model_defs)

lemma open_state:
  "run [Connection (valid_request ''a'')] init_state =
   \<lparr>clients =
      [\<lparr>wid = 0, readyState = OPEN, isAlive = Some True, clientIP = ''a'', listeners = True\<rparr>],
    clientConnections = [(''a'', 1)], heartbeatInterval = Some 0, timers = [0],
    next_timer = 1, next_wid = 1,
    io = [Log Info ''Connection opened'', Log Info ''Starting heartbeat interval'']\<rparr>"
  by (simp add: model_defs)

lemma open_state_tick:
  "run [Connection (valid_request ''a''), Tick] init_state =
   \<lparr>clients =
      [\<lparr>wid = 0, readyState = OPEN, isAlive = Some False, clientIP = ''a'', listeners = True\<rparr>],
    clientConnections = [(''a'', 1)], heartbeatInterval = Some 0, timers = [0],
    next_timer = 1, next_wid = 1,
    io = [Log Info ''Connection opened'', Log Info ''Starting heartbeat interval'', WsPing 0]\<rparr>"
  by (simp add: model_defs)

theorem C6_witness:
  "wf_state (run [Connection (valid_request ''a'')] init_state) \<and>
   timers (run [Connection (valid_request ''a'')] init_state) \<noteq> [] \<and>
   find_ws 0 (clients (run [Connection (valid_request ''a'')] init_state)) =
     Some \<lparr>wid = 0, readyState = OPEN, isAlive = Some True, clientIP = ''a'', listeners = True\<rparr> \<and>
   WsTerminate 0 \<notin> set (outputs Tick (run [Connection (valid_request ''a'')] init_state)) \<and>
   WsPing 0 \<in> set (outputs Tick (run [Connection (valid_request ''a'')] init_state)) \<and>
   quiet 0 [Message 0 ''hi'', Connection (valid_request ''b'')] \<and>
   WsTerminate 0 \<in> set (outputs Tick
     (run (Tick # [Message 0 ''hi'', Connection (valid_request ''b'')])
        (run [Connection (valid_request ''a'')] init_state))) \<and>
   answers 0 True [Tick, Pong 0, Tick, Message 0 ''hi'', Pong 0, Tick] \<and>
   WsTerminate 0 \<notin> set (io (run [Tick, Pong 0, Tick, Message 0 ''hi'', Pong 0, Tick]
     (run [Connection (valid_request ''a'')] init_state))) \<and>
   find_ws 0 (clients (run [Connection (valid_request ''a''), Tick] init_state)) =
     Some \<lparr>wid = 0, readyState = OPEN, isAlive = Some False, clientIP = ''a'', listeners = True\<rparr> \<and>
   WsTerminate 0 \<in> set (outputs Tick (run [Connection (valid_request ''a''), Tick] init_state)) \<and>
   find_ws 0 (clients (step (Close 0) (step Tick
     (run [Connection (valid_request ''a''), Tick] init_state)))) = None \<and>
   clientConnections (step (Close 0) (step Tick
     (run [Connection (valid_request ''a''), Tick] init_state))) = []"
  using C6_heartbeat_tick_and_eviction
    [of "run [Connection (valid_request ''a'')] init_state" 0
        "\<lparr>wid = 0, readyState = OPEN, isAlive = Some True, clientIP = ''a'', listeners = True\<rparr>"
        "[Message 0 ''hi'', Connection (valid_request ''b'')]"
        "[Tick, Pong 0, Tick, Message 0 ''hi'', Pong 0, Tick]"]
    C6_heartbeat_tick_and_eviction
    [of "run [Connection (valid_request ''a''), Tick] init_state" 0
        "\<lparr>wid = 0, readyState = OPEN, isAlive = Some False, clientIP = ''a'', listeners = True\<rparr>"
        "[]" "[]"]
  by (simp add: open_state open_state_tick wf_state_def) (simp add: model_defs)

section \<open>Lifecycle of the heartbeat timer\<close>

text \<open>
  Claim C7. The code starts the timer when \<^verbatim>\<open>wss.clients.size === 1\<close> and stops it when
  \<^verbatim>\<open>wss.clients.size === 0\<close> in the 'close' listener of an admitted socket, and a
  rejected socket stays in \<^verbatim>\<open>wss.clients\<close> until its 'close' event. Evaluated on three
  runs: a rejected socket followed by an admitted one leaves one active connection and
  no timer; the timer is still missing after the rejected socket closed and another
  connection was admitted; and an admitted socket that closes before a rejected one
  leaves the timer running with no connection. (At most one timer is ever scheduled:
  see \<open>one_timer\<close>.)
\<close>

theorem C7_heartbeat_lifecycle_failures:
  "map (\<lambda>c. (wid c, readyState c, listeners c))
     (clients (run [Connection (invalid_request ''a''), Connection (valid_request ''b'')] init_state)) =
     [(0, CLOSING, False), (1, OPEN, True)] \<and>
   length (activeConnections
     (run [Connection (invalid_request ''a''), Connection (valid_request ''b'')] init_state)) = 1 \<and>
   timers (run [Connection (invalid_request ''a''), Connection (valid_request ''b'')] init_state) = [] \<and>
   map (\<lambda>c. (wid c, readyState c, listeners c))
     (clients (run [Connection (invalid_request ''a''), Connection (valid_request ''b''), Close 0,
        Connection (valid_request ''c'')] init_state)) =
     [(1, OPEN, True), (2, OPEN, True)] \<and>
   timers (run [Connection (invalid_request ''a''), Connection (valid_request ''b''), Close 0,
        Connection (valid_request ''c'')] init_state) = [] \<and>
   clients (run [Connection (valid_request ''a''), Connection (invalid_request ''b''), Close 0, Close 1]
     init_state) = [] \<and>
   timers (run [Connection (valid_request ''a''), Connection (invalid_request ''b''), Close 0, Close 1]
     init_state) = [0]"
  by (simp add: model_defs activeConnections_def)

section \<open>Retries of the HTTP listener\<close>

lemma server_on_error_in_use:
  "server_on_error ''EADDRINUSE'' s =
   s\<lparr>server_log := server_log s @ [''HTTP Server error:'', ''Port already in use, retrying...''],
     pending := pending s @ [1000]\<rparr>"
  by (simp add: server_on_error_def)

lemma server_on_error_other:
  "code \<noteq> ''EADDRINUSE'' \<Longrightarrow>
   server_on_error code s = s\<lparr>server_log := server_log s @ [''HTTP Server error:'']\<rparr>"
  by (simp add: server_on_error_def)

lemma listener_run_retries:
  "pending s = [] \<Longrightarrow>
   close_calls (listener_run rs s) = close_calls s + bind_failures rs \<and>
   listen_calls (listener_run rs s) = listen_calls s + bind_failures rs \<and>
   pending (listener_run rs s) = []"
proof (induction rs arbitrary: s)
  case Nil
  then show ?case by (simp add: bind_failures_def)
next
  case (Cons r rs)
  show ?case
  proof (cases r)
    case Listening
    with Cons.prems show ?thesis by (simp add: bind_failures_def)
  next
    case (ListenError code)
    show ?thesis
    proof (cases "code = ''EADDRINUSE''")
      case True
      let ?s' = "retry_callback
        (s\<lparr>server_log := server_log s @ [''HTTP Server error:'', ''Port already in use, retrying...''],
           pending := []\<rparr>)"
      have p: "pending ?s' = []" by (simp add: retry_callback_def)
      have "listener_run (r # rs) s = listener_run rs ?s'"
        using ListenError True Cons.prems by (simp add: server_on_error_in_use)
      with Cons.IH[OF p] ListenError True show ?thesis
        by (simp add: bind_failures_def retry_callback_def)
    next
      case False
      with ListenError Cons.prems show ?thesis
        by (simp add: server_on_error_other bind_failures_def)
    qed
  qed
qed

text \<open>
  Claim C9, as amended. Every bind error \<^verbatim>\<open>EADDRINUSE\<close> schedules one retry after a
  fixed delay of 1000 ms, and a retry that fails in the same way schedules the next:
  the number of retries of an execution is the number of consecutive bind failures, with
  no bound.
\<close>

theorem C9_one_retry_per_bind_failure:
  "close_calls (listener_run rs server_started) = bind_failures rs \<and>
   listen_calls (listener_run rs server_started) = Suc (bind_failures rs) \<and>
   pending (server_on_error ''EADDRINUSE'' s) = pending s @ [1000]"
  using listener_run_retries[of server_started rs]
  by (simp add: server_started_def server_on_error_in_use)

text \<open>Three bind failures in a row give three retries, not at most one.\<close>

theorem C9_counterexample:
  "close_calls (listener_run
     [ListenError ''EADDRINUSE'', ListenError ''EADDRINUSE'', ListenError ''EADDRINUSE'', Listening]
     server_started) = 3 \<and>
   \<not> close_calls (listener_run
     [ListenError ''EADDRINUSE'', ListenError ''EADDRINUSE'', ListenError ''EADDRINUSE'', Listening]
     server_started) \<le> 1"
  by (simp add: server_started_def server_on_error_def retry_callback_def)

end
